theory Spec2Isabelle
  imports Main "HOL-Library.Sublist"
begin

section \<open>Python strings\<close>

text \<open>
  A Python \<open>str\<close> is modelled as a \<^typ>\<open>string\<close>, a list of 8-bit characters read as the
  code points 0..255. The character classes below are Python's own classes restricted to
  that range: \<open>str.strip()\<close> and the regular expression class \<open>\s\<close> both use
  \<open>str.isspace\<close> (code points 9..13, 28..32, 133 and 160 below 256), \<open>\d\<close> is the
  decimal digits (only \<open>0\<close>..\<open>9\<close> below 256), and \<open>str.lower()\<close> adds 32 to \<open>A\<close>..\<open>Z\<close>
  and to the upper-case letters 192..222 (215, the multiplication sign, apart).
\<close>

definition is_space :: "char \<Rightarrow> bool" where
  "is_space c =
     (let n = (of_char c :: nat)
      in (9 \<le> n \<and> n \<le> 13) \<or> (28 \<le> n \<and> n \<le> 32) \<or> n = 133 \<or> n = 160)"

definition is_digit :: "char \<Rightarrow> bool" where
  "is_digit c = (let n = (of_char c :: nat) in 48 \<le> n \<and> n \<le> 57)"

definition is_upper :: "char \<Rightarrow> bool" where
  "is_upper c =
     (let n = (of_char c :: nat)
      in (65 \<le> n \<and> n \<le> 90) \<or> (192 \<le> n \<and> n \<le> 222 \<and> n \<noteq> 215))"

definition lower_char :: "char \<Rightarrow> char" where
  "lower_char c = (if is_upper c then char_of ((of_char c :: nat) + 32) else c)"

definition str_lower :: "string \<Rightarrow> string" where
  "str_lower s = map lower_char s"

definition str_strip :: "string \<Rightarrow> string" where
  "str_strip s = rev (dropWhile is_space (rev (dropWhile is_space s)))"

definition str_endswith :: "string \<Rightarrow> string \<Rightarrow> bool" where
  "str_endswith s sfx = suffix sfx s"

definition SPACE_ENC :: string where
  "SPACE_ENC = ''|''"

text \<open>
  \<open>re.sub(r"\s+", repl, s)\<close>: scanning from the left, every maximal run of whitespace is
  replaced by \<open>repl\<close>, every other character is copied.
\<close>

function re_sub_spaces :: "string \<Rightarrow> string \<Rightarrow> string" where
  "re_sub_spaces repl [] = []"
| "re_sub_spaces repl (c # cs) =
     (if is_space c then repl @ re_sub_spaces repl (dropWhile is_space cs)
      else c # re_sub_spaces repl cs)"
  by pat_completeness auto
termination
  by (relation "measure (\<lambda>(repl, s). length s)")
     (auto simp: length_dropWhile_le less_Suc_eq_le)

section \<open>Database values\<close>

text \<open>
  A cell of a row as the code observes it: \<open>None\<close>; a list or tuple, given by the
  \<open>str()\<close> of each item and the \<open>str()\<close> of the whole; or any other value (a \<open>str\<close>,
  \<open>Decimal\<close>, \<open>float\<close> or \<open>int\<close>), given by its \<open>str()\<close>.
\<close>

datatype pyval = PNone | PScalar string | PSeq "string list" string

fun py_str :: "pyval \<Rightarrow> string" where
  "py_str PNone = ''None''"
| "py_str (PScalar s) = s"
| "py_str (PSeq items s) = s"

fun is_seq :: "pyval \<Rightarrow> bool" where
  "is_seq (PSeq items s) = True"
| "is_seq v = False"

fun seq_items :: "pyval \<Rightarrow> string list" where
  "seq_items (PSeq items s) = items"
| "seq_items v = []"

definition normalize_token :: "pyval \<Rightarrow> string \<Rightarrow> string" where
  "normalize_token s dflt =
     (if s = PNone then dflt
      else let s1 = str_strip (py_str s)
           in if s1 = [] \<or> str_lower s1 = ''null'' then dflt
              else re_sub_spaces SPACE_ENC s1)"

definition format_float :: "pyval \<Rightarrow> string" where
  "format_float v = (if v = PNone then [] else str_strip (py_str v))"

section \<open>Numeric tokens\<close>

text \<open>
  \<open>FLOAT_RE = [-+]?\d+(?:\.\d+)?(?:[eE][-+]?\d+)?\<close>. A match attempt at the head of a
  string returns the matched text and the rest. Python's matcher is greedy and backtracks;
  for this pattern the first alternative it finds is: the sign when there is one, all the
  digits, the fraction when a dot is followed by a digit, the exponent when \<open>e\<close> or \<open>E\<close>
  and an optional sign are followed by a digit. After the first digits nothing can fail
  (both groups are optional), and giving back the sign leaves \<open>\d+\<close> facing the sign.
\<close>

definition opt_sign :: "string \<Rightarrow> string \<times> string" where
  "opt_sign s =
     (case s of
        [] \<Rightarrow> ([], s)
      | c # cs \<Rightarrow> if c = CHR ''-'' \<or> c = CHR ''+'' then ([c], cs) else ([], s))"

definition digits1 :: "string \<Rightarrow> (string \<times> string) option" where
  "digits1 s =
     (if takeWhile is_digit s = [] then None
      else Some (takeWhile is_digit s, dropWhile is_digit s))"

definition opt_fraction :: "string \<Rightarrow> string \<times> string" where
  "opt_fraction s =
     (case s of
        [] \<Rightarrow> ([], s)
      | c # cs \<Rightarrow>
          if c = CHR ''.'' then
            (case digits1 cs of None \<Rightarrow> ([], s) | Some (d, r) \<Rightarrow> (c # d, r))
          else ([], s))"

definition opt_exponent :: "string \<Rightarrow> string \<times> string" where
  "opt_exponent s =
     (case s of
        [] \<Rightarrow> ([], s)
      | c # cs \<Rightarrow>
          if c = CHR ''e'' \<or> c = CHR ''E'' then
            (case digits1 (snd (opt_sign cs)) of
               None \<Rightarrow> ([], s)
             | Some (d, r) \<Rightarrow> (c # fst (opt_sign cs) @ d, r))
          else ([], s))"

definition FLOAT_RE_match :: "string \<Rightarrow> (string \<times> string) option" where
  "FLOAT_RE_match s =
     (case digits1 (snd (opt_sign s)) of
        None \<Rightarrow> None
      | Some (ip, r1) \<Rightarrow>
          (let fr = opt_fraction r1; ex = opt_exponent (snd fr)
           in Some (fst (opt_sign s) @ ip @ fst fr @ fst ex, snd ex)))"

lemma opt_sign_length: "length (snd (opt_sign s)) \<le> length s"
  by (simp add: opt_sign_def split: list.splits)

lemma digits1_length: "digits1 s = Some (d, r) \<Longrightarrow> length r < length s"
proof -
  assume a: "digits1 s = Some (d, r)"
  then have d: "takeWhile is_digit s \<noteq> []" and r: "r = dropWhile is_digit s"
    by (auto simp: digits1_def split: if_splits)
  have "length (takeWhile is_digit s) + length (dropWhile is_digit s) = length s"
    by (metis length_append takeWhile_dropWhile_id)
  with d r show ?thesis
    by (cases "takeWhile is_digit s") auto
qed

lemma opt_fraction_length: "length (snd (opt_fraction s)) \<le> length s"
  by (auto simp: opt_fraction_def split: list.splits option.splits dest!: digits1_length)

lemma opt_exponent_length: "length (snd (opt_exponent s)) \<le> length s"
proof (cases s)
  case Nil
  then show ?thesis by (simp add: opt_exponent_def)
next
  case (Cons c cs)
  show ?thesis
  proof (cases "digits1 (snd (opt_sign cs))")
    case None
    with Cons show ?thesis by (simp add: opt_exponent_def)
  next
    case (Some p)
    obtain d r where p: "p = (d, r)" by (cases p)
    from Some p have "length r < length (snd (opt_sign cs))"
      by (auto dest: digits1_length)
    also have "\<dots> \<le> length cs" by (rule opt_sign_length)
    finally show ?thesis using Cons Some p by (simp add: opt_exponent_def)
  qed
qed

lemma FLOAT_RE_match_length:
  assumes "FLOAT_RE_match s = Some (m, r)"
  shows "length r < length s"
proof -
  from assms obtain ip r1 where d: "digits1 (snd (opt_sign s)) = Some (ip, r1)"
    and r: "r = snd (opt_exponent (snd (opt_fraction r1)))"
    by (auto simp: FLOAT_RE_match_def Let_def split: option.splits)
  have "length r \<le> length (snd (opt_fraction r1))"
    unfolding r by (rule opt_exponent_length)
  also have "\<dots> \<le> length r1" by (rule opt_fraction_length)
  also have "\<dots> < length (snd (opt_sign s))" using d by (rule digits1_length)
  also have "\<dots> \<le> length s" by (rule opt_sign_length)
  finally show ?thesis .
qed

text \<open>
  \<open>FLOAT_RE.findall(s)\<close>: the matches from left to right, none overlapping; the scan
  goes on after a match, and one character further where there is none.
\<close>

function FLOAT_RE_findall :: "string \<Rightarrow> string list" where
  "FLOAT_RE_findall [] = []"
| "FLOAT_RE_findall (c # cs) =
     (case FLOAT_RE_match (c # cs) of
        None \<Rightarrow> FLOAT_RE_findall cs
      | Some (m, rest) \<Rightarrow> m # FLOAT_RE_findall rest)"
  by pat_completeness auto
termination
  by (relation "measure length") (auto dest: FLOAT_RE_match_length)

definition parse_ecef_xyz :: "pyval \<Rightarrow> (string \<times> string \<times> string) option" where
  "parse_ecef_xyz ecef_value =
     (if ecef_value = PNone then None
      else if is_seq ecef_value \<and> 3 \<le> length (seq_items ecef_value) then
        Some (seq_items ecef_value ! 0, seq_items ecef_value ! 1, seq_items ecef_value ! 2)
      else
        (let nums = FLOAT_RE_findall (py_str ecef_value)
         in if length nums < 3 then None else Some (nums ! 0, nums ! 1, nums ! 2)))"

section \<open>Errors, paths and the configuration\<close>

text \<open>
  The exceptions the modelled code can raise. \<open>ValueError\<close> carries its message (the
  \<open>repr\<close> quoting of the offending string is left out); \<open>OSError\<close> stands for any
  failure of a file-system call.
\<close>

datatype py_error = ValueError string | OSError

text \<open>
  \<open>pathlib.Path\<close> on POSIX: a root and the components below it. \<open>Path(s)\<close> splits at
  \<open>/\<close> and drops empty components and \<open>.\<close>; exactly two leading slashes are kept as
  the root \<open>//\<close>.
\<close>

record Path =
  root :: string
  parts :: "string list"

fun split_sep :: "string \<Rightarrow> string list" where
  "split_sep [] = [[]]"
| "split_sep (c # cs) =
     (if c = CHR ''/'' then [] # split_sep cs
      else (case split_sep cs of [] \<Rightarrow> [[c]] | p # ps \<Rightarrow> (c # p) # ps))"

definition py_Path :: "string \<Rightarrow> Path" where
  "py_Path s =
     \<lparr>root = (if take 1 s = ''/'' then
                (if take 2 s = ''//'' \<and> take 3 s \<noteq> ''///'' then ''//'' else ''/'')
              else []),
      parts = filter (\<lambda>p. p \<noteq> [] \<and> p \<noteq> ''.'') (split_sep s)\<rparr>"

definition path_name :: "Path \<Rightarrow> string" where
  "path_name p = (if parts p = [] then [] else last (parts p))"

text \<open>\<open>name.rfind('.')\<close>: the index of the last dot, if there is one.\<close>

definition rfind_dot :: "string \<Rightarrow> nat option" where
  "rfind_dot name =
     (if CHR ''.'' \<in> set name
      then Some (length name - 1 - length (takeWhile (\<lambda>c. c \<noteq> CHR ''.'') (rev name)))
      else None)"

text \<open>\<open>Path.suffix\<close>: \<open>name[i:]\<close> when \<open>0 < i < len(name) - 1\<close>, else the empty string.\<close>

definition path_suffix :: "Path \<Rightarrow> string" where
  "path_suffix p =
     (case rfind_dot (path_name p) of
        None \<Rightarrow> []
      | Some i \<Rightarrow> if 0 < i \<and> i + 1 < length (path_name p) then drop i (path_name p) else [])"

text \<open>
  \<open>Path.with_suffix(suffix)\<close>: refuses a suffix holding a separator, one that does not
  start with a dot or is only a dot, and a path with an empty name; otherwise the old
  suffix of the name is replaced by the new one.
\<close>

definition with_suffix :: "Path \<Rightarrow> string \<Rightarrow> py_error + Path" where
  "with_suffix p sfx =
     (if CHR ''/'' \<in> set sfx then Inl (ValueError ''Invalid suffix'')
      else if (sfx \<noteq> [] \<and> \<not> prefix ''.'' sfx) \<or> sfx = ''.'' then
        Inl (ValueError ''Invalid suffix'')
      else if path_name p = [] then Inl (ValueError ''empty name'')
      else
        (let name = path_name p; old_suffix = path_suffix p;
             name' = (if old_suffix = [] then name @ sfx
                      else take (length name - length old_suffix) name @ sfx)
         in Inr (p\<lparr>parts := butlast (parts p) @ [name']\<rparr>)))"

text \<open>The dataclass \<open>Config\<close>; its field \<open>output\<close> is \<open>output_path\<close> here.\<close>

record Config =
  host :: string
  port :: int
  dbname :: string
  user :: string
  password :: string
  sslmode :: string
  view :: string
  where_sql :: "string option"
  order_by :: string
  interval_s :: int
  output_path :: Path
  ant_h_default :: string
  ant_e_default :: string
  ant_n_default :: string
  once :: bool
  mode :: string

text \<open>
  \<open>env(name, default)\<close> over \<open>os.environ\<close>, a map from names to values: the stripped
  value, or the default when the variable is unset or blank.
\<close>

definition env :: "(string \<rightharpoonup> string) \<Rightarrow> string \<Rightarrow> string option \<Rightarrow> string option" where
  "env environ name dflt =
     (case environ name of
        None \<Rightarrow> dflt
      | Some v \<Rightarrow> if str_strip v = [] then dflt else Some (str_strip v))"

text \<open>With a \<open>str\<close> default, \<open>env\<close> never returns \<open>None\<close>.\<close>

definition env_str :: "(string \<rightharpoonup> string) \<Rightarrow> string \<Rightarrow> string \<Rightarrow> string" where
  "env_str environ name dflt = (case env environ name (Some dflt) of None \<Rightarrow> dflt | Some v \<Rightarrow> v)"

text \<open>
  \<open>env_int\<close>: Python's built-in \<open>int(v)\<close> is a parameter, \<open>None\<close> where it raises; the
  exception is caught and gives the default.
\<close>

definition env_int :: "(string \<Rightarrow> int option) \<Rightarrow> (string \<rightharpoonup> string) \<Rightarrow> string \<Rightarrow> int \<Rightarrow> int" where
  "env_int py_int environ name dflt =
     (case env environ name None of
        None \<Rightarrow> dflt
      | Some v \<Rightarrow> (case py_int v of None \<Rightarrow> dflt | Some n \<Rightarrow> n))"

text \<open>The character class \<open>[A-Za-z0-9_\.\s,]\<close> of \<open>safe_ident\<close>.\<close>

definition allowed_char :: "char \<Rightarrow> bool" where
  "allowed_char c =
     (let n = (of_char c :: nat)
      in (65 \<le> n \<and> n \<le> 90) \<or> (97 \<le> n \<and> n \<le> 122) \<or> is_digit c
         \<or> c = CHR ''_'' \<or> c = CHR ''.'' \<or> is_space c \<or> c = CHR '','')"

text \<open>\<open>re.fullmatch(r"[A-Za-z0-9_\.\s,]+", s)\<close>: one character or more, each of the class.\<close>

definition safe_ident :: "string \<Rightarrow> string \<Rightarrow> py_error + string" where
  "safe_ident s what =
     (if \<not> (s \<noteq> [] \<and> list_all allowed_char s)
      then Inl (ValueError (''Invalid '' @ what @ '': '' @ s))
      else Inr s)"

definition load_config :: "(string \<Rightarrow> int option) \<Rightarrow> (string \<rightharpoonup> string) \<Rightarrow> py_error + Config" where
  "load_config py_int environ =
     (let host_v = env_str environ ''QUERYDB_PGHOST'' ''host.docker.internal'';
          port_v = env_int py_int environ ''QUERYDB_PGPORT'' 5432;
          dbname_v = env_str environ ''QUERYDB_PGDATABASE'' ''centipede'';
          user_v = env_str environ ''QUERYDB_PGUSER'' ''centipede_readonly'';
          password_v = env_str environ ''QUERYDB_PGPASSWORD'' [];
          sslmode_v = env_str environ ''QUERYDB_PGSSLMODE'' ''prefer'';
          view_v = env_str environ ''QUERYDB_VIEW'' ''public.station_list_source'';
          where_v = env environ ''QUERYDB_WHERE'' None;
          order_v = env_str environ ''QUERYDB_ORDER_BY'' ''mp'';
          interval_v = env_int py_int environ ''QUERYDB_INTERVAL_SECONDS'' 3600;
          output_v = py_Path (env_str environ ''QUERYDB_OUTPUT'' ''/config/stations.list'');
          ant_h_v = env_str environ ''QUERYDB_ANT_H_DEFAULT'' ''0.0'';
          ant_e_v = env_str environ ''QUERYDB_ANT_E_DEFAULT'' ''0.0'';
          ant_n_v = env_str environ ''QUERYDB_ANT_N_DEFAULT'' ''0.0'';
          once_v = (str_lower (env_str environ ''QUERYDB_ONCE'' ''false'') = ''true'');
          mode_l = str_lower (env_str environ ''QUERYDB_MODE'' ''auto'');
          mode_v = (if mode_l \<notin> {''auto'', ''station_list_source'', ''etat_antennes4''}
                    then ''auto'' else mode_l)
      in case safe_ident view_v ''QUERYDB_VIEW'' of
           Inl e \<Rightarrow> Inl e
         | Inr _ \<Rightarrow>
             (case safe_ident order_v ''QUERYDB_ORDER_BY'' of
                Inl e \<Rightarrow> Inl e
              | Inr _ \<Rightarrow>
                  Inr \<lparr>host = host_v, port = port_v, dbname = dbname_v, user = user_v,
                       password = password_v, sslmode = sslmode_v, view = view_v,
                       where_sql = where_v, order_by = order_v,
                       interval_s = (if interval_v < 60 then 60 else interval_v),
                       output_path = output_v, ant_h_default = ant_h_v, ant_e_default = ant_e_v,
                       ant_n_default = ant_n_v, once = once_v, mode = mode_v\<rparr>))"

section \<open>The schema and the query\<close>

definition is_station_list_source_view :: "Config \<Rightarrow> bool" where
  "is_station_list_source_view cfg =
     (if mode cfg = ''station_list_source'' then True
      else if mode cfg = ''etat_antennes4'' then False
      else str_endswith (str_lower (view cfg)) ''station_list_source'')"

definition build_sql :: "Config \<Rightarrow> string" where
  "build_sql cfg =
     (let wh = (case where_sql cfg of
                  None \<Rightarrow> '' ''
                | Some w \<Rightarrow> if w = [] then '' '' else '' WHERE '' @ w @ '' '')
      in if is_station_list_source_view cfg then
           ''SELECT mp, rinex_id, x, y, z, rec_type, rec_ver, ant_type, ant_h, ant_e, ant_n ''
           @ ''FROM '' @ view cfg @ wh @ ''ORDER BY '' @ order_by cfg @ '';''
         else
           ''SELECT mp, serial_code_world, ecef, receiver, version, antenne ''
           @ ''FROM '' @ view cfg @ wh @ ''ORDER BY '' @ order_by cfg @ '';'')"

text \<open>
  Start-up as \<open>main\<close> runs it: the configuration is loaded first, and the query text is
  built (by \<open>fetch_rows\<close>, from \<open>loop\<close>) only from a configuration that was returned.
\<close>

definition startup_sql :: "(string \<Rightarrow> int option) \<Rightarrow> (string \<rightharpoonup> string) \<Rightarrow> py_error + string" where
  "startup_sql py_int environ =
     (case load_config py_int environ of Inl e \<Rightarrow> Inl e | Inr cfg \<Rightarrow> Inr (build_sql cfg))"

section \<open>Formatting a row\<close>

text \<open>
  The body of the loop of \<open>write_station_list\<close> for one row: the eleven local variables
  \<open>mp_t\<close>, \<open>rinex_id_t\<close>, \<open>x_t\<close>, \<open>y_t\<close>, \<open>z_t\<close>, \<open>rec_type_t\<close>, \<open>rec_ver_t\<close>,
  \<open>ant_type_t\<close>, \<open>ant_h_t\<close>, \<open>ant_e_t\<close>, \<open>ant_n_t\<close> in the order of the written line,
  or \<open>None\<close> where the row is passed over by \<open>continue\<close>. A row is the list of its
  cells; every index below is guarded by the length test of its branch.
\<close>

definition row_fields :: "Config \<Rightarrow> pyval list \<Rightarrow> string list option" where
  "row_fields cfg row =
     (if 11 \<le> length row \<and> is_station_list_source_view cfg then
        (let mp_t = normalize_token (row ! 0) [];
             rinex_id_t = normalize_token (row ! 1) mp_t;
             x_t = format_float (row ! 2);
             y_t = format_float (row ! 3);
             z_t = format_float (row ! 4);
             rec_type_t = normalize_token (row ! 5) ''UNKNOWN'';
             rec_ver_t = normalize_token (row ! 6) ''UNKNOWN'';
             ant_type_t = normalize_token (row ! 7) ''NONE|NONE'';
             ant_h_t = normalize_token (row ! 8) (ant_h_default cfg);
             ant_e_t = normalize_token (row ! 9) (ant_e_default cfg);
             ant_n_t = normalize_token (row ! 10) (ant_n_default cfg)
         in Some [mp_t, rinex_id_t, x_t, y_t, z_t, rec_type_t, rec_ver_t, ant_type_t,
                  ant_h_t, ant_e_t, ant_n_t])
      else if length row < 6 then None
      else
        (let mp_t = normalize_token (row ! 0) [];
             rinex_id_t = normalize_token (row ! 1) mp_t;
             xyz = (case parse_ecef_xyz (row ! 2) of
                      None \<Rightarrow> ([], [], [])
                    | Some t \<Rightarrow> t);
             rec_type_t = normalize_token (row ! 3) ''UNKNOWN'';
             rec_ver_t = normalize_token (row ! 4) ''UNKNOWN'';
             ant_type_t = normalize_token (row ! 5) ''NONE|NONE'';
             ant_h_t = ant_h_default cfg;
             ant_e_t = ant_e_default cfg;
             ant_n_t = ant_n_default cfg
         in Some [mp_t, rinex_id_t, fst xyz, fst (snd xyz), snd (snd xyz), rec_type_t,
                  rec_ver_t, ant_type_t, ant_h_t, ant_e_t, ant_n_t]))"

definition NL :: string where
  "NL = [CHR 0x0A]"

text \<open>The f-string of a data line: the fields with one space between them, and \<open>\n\<close>.\<close>

fun join_spaces :: "string list \<Rightarrow> string" where
  "join_spaces [] = []"
| "join_spaces [f] = f"
| "join_spaces (f # g # fs) = f @ '' '' @ join_spaces (g # fs)"

definition row_line :: "Config \<Rightarrow> pyval list \<Rightarrow> string option" where
  "row_line cfg row = map_option (\<lambda>fs. join_spaces fs @ NL) (row_fields cfg row)"

text \<open>
  The loop over the rows, with its two variables: the lines written so far (one per
  \<open>f.write\<close> of the loop) and \<open>count\<close>.
\<close>

fun rows_loop :: "Config \<Rightarrow> pyval list list \<Rightarrow> string list \<times> nat \<Rightarrow> string list \<times> nat" where
  "rows_loop cfg [] acc = acc"
| "rows_loop cfg (row # rows) (written, count) =
     (case row_line cfg row of
        None \<Rightarrow> rows_loop cfg rows (written, count)
      | Some l \<Rightarrow> rows_loop cfg rows (written @ [l], count + 1))"

section \<open>Writing the file\<close>

text \<open>The comment header, one element per \<open>f.write\<close>; \<open>ts\<close> is \<open>now_utc_iso()\<close>.\<close>

definition header :: "string \<Rightarrow> Config \<Rightarrow> string list" where
  "header ts cfg =
     [''# stations.list (auto-generated)'' @ NL,
      ''# generated_at_utc='' @ ts @ NL,
      ''# source='' @ view cfg @ NL,
      ''# mode='' @ mode cfg @ NL]
     @ (case where_sql cfg of
          None \<Rightarrow> []
        | Some w \<Rightarrow> if w = [] then [] else [''# where='' @ w @ NL])
     @ [''#'' @ NL,
        ''# Token encoding: internal spaces in REC_TYPE/REC_VER/ANT_TYPE are written as ''
          @ [CHR 0x27, CHR ''|'', CHR 0x27] @ NL,
        ''# Decoding is handled by the converters when writing RINEX headers.'' @ NL,
        ''#'' @ NL,
        ''# <MOUNTPOINT> <RINEX_ID> <X> <Y> <Z> <REC_TYPE> <REC_VER> <ANT_TYPE> <ANT_H> <ANT_E> <ANT_N>''
          @ NL]"

text \<open>
  The file system is a map from paths to the contents of the files there (directories
  are not modelled). Every file-system call of \<open>write_station_list\<close> can fail: the calls
  are numbered as they are made, and \<open>faults k\<close> says that call \<open>k\<close> raises \<open>OSError\<close>.
  Each function returns, beside its result, the states the file system went through,
  one per call that changed it.
\<close>

type_synonym fs = "Path \<rightharpoonup> string"

text \<open>
  The \<open>f.write\<close> calls on the open temporary file, from call number \<open>k\<close> on. A write
  that fails leaves what was written before it.
\<close>

fun write_chunks :: "(nat \<Rightarrow> bool) \<Rightarrow> nat \<Rightarrow> Path \<Rightarrow> string list \<Rightarrow> fs \<Rightarrow> (py_error + fs) \<times> fs list" where
  "write_chunks faults k tmp [] st = (Inr st, [])"
| "write_chunks faults k tmp (c # cs) st =
     (if faults k then (Inl OSError, [])
      else
        (let st' = st(tmp \<mapsto> (case st tmp of None \<Rightarrow> [] | Some old \<Rightarrow> old) @ c);
             r = write_chunks faults (Suc k) tmp cs st'
         in (fst r, st' # snd r)))"

text \<open>
  \<open>write_station_list\<close>: call 0 is \<open>mkdir\<close> of the parent, call 1 opens the temporary
  file for writing (creating or truncating it), the next calls are the writes of the
  header and of the data lines, then the file is closed and \<open>tmp.replace(out)\<close> renames
  it over the target. An exception at any call leaves the function at once. The lines
  of the rows are computed by \<open>rows_loop\<close> before the writes; formatting a row has no
  effect, so the writes are the same and in the same order as in the source's loop.
\<close>

definition write_station_list ::
  "(nat \<Rightarrow> bool) \<Rightarrow> string \<Rightarrow> Config \<Rightarrow> pyval list list \<Rightarrow> fs \<Rightarrow> (py_error + nat) \<times> fs list" where
  "write_station_list faults ts cfg rows st0 =
     (let out = output_path cfg
      in if faults 0 then (Inl OSError, [])
         else
           (case with_suffix out (path_suffix out @ ''.tmp'') of
              Inl e \<Rightarrow> (Inl e, [])
            | Inr tmp \<Rightarrow>
                if faults 1 then (Inl OSError, [])
                else
                  (let st1 = st0(tmp \<mapsto> []);
                       body = rows_loop cfg rows ([], 0);
                       chunks = header ts cfg @ fst body;
                       w = write_chunks faults 2 tmp chunks st1;
                       k = 2 + length chunks
                   in case fst w of
                        Inl e \<Rightarrow> (Inl e, st1 # snd w)
                      | Inr st2 \<Rightarrow>
                          if faults k then (Inl OSError, st1 # snd w)
                          else if faults (Suc k) then (Inl OSError, st1 # snd w)
                          else (Inr (snd body),
                                st1 # snd w @ [st2(out := st2 tmp, tmp := None)]))))"

section \<open>Notions of the specification\<close>

text \<open>
  \<open>encodes t r\<close>: the text \<open>t\<close>, which starts and ends with a word, is \<open>r\<close> once every
  maximal run of whitespace between two words is replaced by one \<open>|\<close>. A word is a
  non-empty run of characters that are not whitespace, kept as it is.
\<close>

inductive encodes :: "string \<Rightarrow> string \<Rightarrow> bool" where
  last_word: "w \<noteq> [] \<Longrightarrow> \<forall>c\<in>set w. \<not> is_space c \<Longrightarrow> encodes w w"
| word_gap: "w \<noteq> [] \<Longrightarrow> \<forall>c\<in>set w. \<not> is_space c \<Longrightarrow> g \<noteq> [] \<Longrightarrow> \<forall>c\<in>set g. is_space c
     \<Longrightarrow> encodes rest r \<Longrightarrow> encodes (w @ g @ rest) (w @ ''|'' @ r)"

text \<open>
  The texts the pattern \<open>FLOAT_RE\<close> describes: an optional sign, digits, an optional
  fraction (a dot and digits), an optional exponent (\<open>e\<close> or \<open>E\<close>, an optional sign,
  digits).
\<close>

definition float_token :: "string \<Rightarrow> bool" where
  "float_token m =
     (\<exists>sg ip fr ex.
        m = sg @ ip @ fr @ ex
        \<and> sg \<in> {[], ''+'', ''-''}
        \<and> ip \<noteq> [] \<and> list_all is_digit ip
        \<and> (fr = [] \<or> (\<exists>d. fr = CHR ''.'' # d \<and> d \<noteq> [] \<and> list_all is_digit d))
        \<and> (ex = [] \<or> (\<exists>e sg' d. ex = e # sg' @ d \<and> e \<in> {CHR ''e'', CHR ''E''}
                            \<and> sg' \<in> {[], ''+'', ''-''} \<and> d \<noteq> [] \<and> list_all is_digit d)))"

text \<open>A field of the written line that is non-empty and holds no whitespace.\<close>

definition clean_token :: "string \<Rightarrow> bool" where
  "clean_token f = (f \<noteq> [] \<and> list_all (\<lambda>c. \<not> is_space c) f)"

text \<open>A cell that \<open>normalize_token\<close> does not replace by its default.\<close>

definition present :: "pyval \<Rightarrow> bool" where
  "present v =
     (v \<noteq> PNone \<and> str_strip (py_str v) \<noteq> [] \<and> str_lower (str_strip (py_str v)) \<noteq> ''null'')"

text \<open>The configuration \<open>load_config\<close> returns when no variable is set.\<close>

definition default_config :: Config where
  "default_config =
     \<lparr>host = ''host.docker.internal'', port = 5432, dbname = ''centipede'',
      user = ''centipede_readonly'', password = [], sslmode = ''prefer'',
      view = ''public.station_list_source'', where_sql = None, order_by = ''mp'',
      interval_s = 3600, output_path = \<lparr>root = ''/'', parts = [''config'', ''stations.list'']\<rparr>,
      ant_h_default = ''0.0'', ant_e_default = ''0.0'', ant_n_default = ''0.0'',
      once = False, mode = ''auto''\<rparr>"

text \<open>The legacy row of the scenario of the specification.\<close>

definition scenario_row :: "pyval list" where
  "scenario_row =
     [PScalar ''ABC'', PNone, PScalar ''1.1 2.2 3.3'', PNone, PScalar ''v1'', PScalar ''TRM;NONE'']"

text \<open>A legacy row with every cell present.\<close>

definition station_row :: "pyval list" where
  "station_row =
     [PScalar ''ABC'', PScalar ''ABCD00FRA'', PScalar ''1.1 2.2 3.3'', PScalar ''SEPT POLARX5'',
      PScalar ''5.4.0'', PScalar ''TRM59800.00 NONE'']"

text \<open>A time stamp and a file system that holds an earlier version of the target.\<close>

definition example_ts :: string where
  "example_ts = ''2026-01-01T00:00:00Z''"

definition example_fs :: fs where
  "example_fs = Map.empty(output_path default_config \<mapsto> ''old'')"

section \<open>Trimming and the sentinel encoding\<close>

lemma str_strip_decomp:
  "s = takeWhile is_space s @ str_strip s @ rev (takeWhile is_space (rev (dropWhile is_space s)))"
proof -
  let ?t = "dropWhile is_space s"
  have "rev (dropWhile is_space (rev ?t)) @ rev (takeWhile is_space (rev ?t))
          = rev (takeWhile is_space (rev ?t) @ dropWhile is_space (rev ?t))"
    by (simp only: rev_append)
  also have "\<dots> = rev (rev ?t)" by (simp only: takeWhile_dropWhile_id)
  finally have "?t = str_strip s @ rev (takeWhile is_space (rev ?t))"
    by (simp only: str_strip_def rev_rev_ident)
  moreover have "s = takeWhile is_space s @ ?t" by simp
  ultimately show ?thesis by metis
qed

lemma str_strip_ends:
  assumes "str_strip s \<noteq> []"
  shows "\<not> is_space (hd (str_strip s))" and "\<not> is_space (last (str_strip s))"
proof -
  let ?t = "dropWhile is_space s"
  let ?u = "dropWhile is_space (rev ?t)"
  from assms have u: "?u \<noteq> []" by (simp add: str_strip_def)
  have t: "?t \<noteq> []"
  proof
    assume "?t = []"
    then have "?u = []" by (metis dropWhile.simps(1) rev.simps(1))
    with u show False by (rule notE)
  qed
  have "last (str_strip s) = hd ?u" using u by (simp add: str_strip_def last_rev)
  moreover have "\<not> is_space (hd ?u)" using u by (rule hd_dropWhile)
  ultimately show "\<not> is_space (last (str_strip s))" by simp
  have "rev ?t = takeWhile is_space (rev ?t) @ ?u" by simp
  then have "last (rev ?t) = last ?u" using u by (metis last_appendR)
  then have "hd ?t = last ?u" using t by (simp add: last_rev)
  moreover have "hd (str_strip s) = last ?u" using u by (simp add: str_strip_def hd_rev)
  moreover have "\<not> is_space (hd ?t)" using t by (rule hd_dropWhile)
  ultimately show "\<not> is_space (hd (str_strip s))" by simp
qed

lemma re_sub_spaces_word:
  "\<forall>c\<in>set w. \<not> is_space c \<Longrightarrow> re_sub_spaces repl (w @ rest) = w @ re_sub_spaces repl rest"
  by (induction w) auto

lemma re_sub_spaces_gap:
  assumes "g \<noteq> []" "\<forall>c\<in>set g. is_space c" "rest \<noteq> []" "\<not> is_space (hd rest)"
  shows "re_sub_spaces repl (g @ rest) = repl @ re_sub_spaces repl rest"
proof -
  from assms(1) obtain c g' where g: "g = c # g'" by (cases g) auto
  have "dropWhile is_space (g' @ rest) = dropWhile is_space rest"
    using assms(2) g by (simp add: dropWhile_append)
  also have "\<dots> = rest" using assms(3,4) by (cases rest) auto
  finally show ?thesis using g assms(2) by simp
qed

lemma encodes_re_sub:
  "t \<noteq> [] \<Longrightarrow> \<not> is_space (hd t) \<Longrightarrow> \<not> is_space (last t) \<Longrightarrow> encodes t (re_sub_spaces ''|'' t)"
proof (induction "length t" arbitrary: t rule: less_induct)
  case less
  define w where "w = takeWhile (\<lambda>c. \<not> is_space c) t"
  define u where "u = dropWhile (\<lambda>c. \<not> is_space c) t"
  have t: "t = w @ u" by (simp add: w_def u_def)
  have w: "w \<noteq> []" using less.prems(1,2) by (cases t) (auto simp: w_def)
  have wns: "\<forall>c\<in>set w. \<not> is_space c" by (auto simp: w_def dest: set_takeWhileD)
  have sub_t: "re_sub_spaces ''|'' t = w @ re_sub_spaces ''|'' u"
    unfolding t using wns by (rule re_sub_spaces_word)
  show ?case
  proof (cases "u = []")
    case True
    then have "encodes t t" using w wns t by (simp add: encodes.last_word)
    moreover have "re_sub_spaces ''|'' t = t" using sub_t True t by simp
    ultimately show ?thesis by simp
  next
    case False
    define g where "g = takeWhile is_space u"
    define r where "r = dropWhile is_space u"
    have u: "u = g @ r" by (simp add: g_def r_def)
    have "\<not> \<not> is_space (hd u)" using False unfolding u_def by (rule hd_dropWhile)
    then have g: "g \<noteq> []" using False by (cases u) (auto simp: g_def)
    have gs: "\<forall>c\<in>set g. is_space c" by (auto simp: g_def dest: set_takeWhileD)
    have lastu: "last t = last u" using False t by simp
    have r: "r \<noteq> []"
    proof
      assume "r = []"
      then have "last u \<in> set g" using u g by simp
      then show False using gs lastu less.prems(3) by auto
    qed
    have hr: "\<not> is_space (hd r)" using r unfolding r_def by (rule hd_dropWhile)
    have lr: "\<not> is_space (last r)" using r u lastu less.prems(3) by simp
    have "length r < length t" using w g t u by (cases w; cases g) auto
    then have IH: "encodes r (re_sub_spaces ''|'' r)" using r hr lr by (rule less.hyps)
    have "re_sub_spaces ''|'' u = ''|'' @ re_sub_spaces ''|'' r"
      unfolding u using g gs r hr by (rule re_sub_spaces_gap)
    then have eq: "re_sub_spaces ''|'' t = w @ ''|'' @ re_sub_spaces ''|'' r"
      using sub_t by simp
    have "encodes (w @ g @ r) (w @ ''|'' @ re_sub_spaces ''|'' r)"
      using w wns g gs IH by (rule encodes.word_gap)
    then show ?thesis using eq t u by simp
  qed
qed

lemma lower_char_space: "is_space c \<Longrightarrow> lower_char c = c"
  by (auto simp: lower_char_def is_space_def is_upper_def Let_def)

lemma str_strip_no_space: "\<forall>c\<in>set t. \<not> is_space c \<Longrightarrow> str_strip t = t"
proof -
  assume a: "\<forall>c\<in>set t. \<not> is_space c"
  then have "dropWhile is_space t = t" by (cases t) auto
  moreover from a have "dropWhile is_space (rev t) = rev t" by (cases "rev t") auto
  ultimately show ?thesis by (simp add: str_strip_def)
qed

lemma str_lower_null_no_space:
  assumes "str_lower t = ''null''"
  shows "\<forall>c\<in>set t. \<not> is_space c"
proof
  fix c assume c: "c \<in> set t"
  show "\<not> is_space c"
  proof
    assume sp: "is_space c"
    then have "lower_char c = c" by (rule lower_char_space)
    moreover have "lower_char c \<in> set (str_lower t)" using c by (simp add: str_lower_def)
    ultimately have "c \<in> set ''null''" using assms by simp
    then show False using sp by (auto simp: is_space_def)
  qed
qed

section \<open>The token normalizer\<close>

text \<open>
  C4. For an input that is \<open>None\<close>, empty after trimming, or equal to \<open>null\<close> whatever the
  case of its letters (before or after trimming), \<open>normalize_token\<close> returns the default
  it was given, unchanged, whatever that default holds.
\<close>

theorem normalize_token_default:
  assumes "s = PNone \<or> str_strip (py_str s) = [] \<or> str_lower (py_str s) = ''null''
           \<or> str_lower (str_strip (py_str s)) = ''null''"
  shows "normalize_token s d = d"
proof -
  have "str_lower (str_strip (py_str s)) = ''null''" if "str_lower (py_str s) = ''null''"
    using that str_strip_no_space [OF str_lower_null_no_space [OF that]] by simp
  with assms show ?thesis by (auto simp: normalize_token_def Let_def)
qed

theorem normalize_token_default_witness:
  "normalize_token PNone ''a b|c'' = ''a b|c''
   \<and> normalize_token (PScalar ''   '') ''a b|c'' = ''a b|c''
   \<and> normalize_token (PScalar ''NuLL'') ''a b|c'' = ''a b|c''
   \<and> normalize_token (PScalar '' Null '') ''a b|c'' = ''a b|c''"
proof -
  have 1: "str_strip (py_str (PScalar ''   '')) = []"
    by (simp add: str_strip_def is_space_def)
  have 2: "str_lower (py_str (PScalar ''NuLL'')) = ''null''"
    by code_simp
  have 3: "str_lower (str_strip (py_str (PScalar '' Null ''))) = ''null''"
    by code_simp
  show ?thesis
    using normalize_token_default [of PNone "''a b|c''"]
      normalize_token_default [of "PScalar ''   ''" "''a b|c''"]
      normalize_token_default [of "PScalar ''NuLL''" "''a b|c''"]
      normalize_token_default [of "PScalar '' Null ''" "''a b|c''"] 1 2 3
    by simp
qed

text \<open>
  C3, as amended. For an input that is not \<open>None\<close>, not empty after trimming and, once
  trimmed, not \<open>null\<close> in any case of its letters: the input is leading whitespace, a core
  and trailing whitespace; the core starts and ends with a character that is not
  whitespace; and the result is the core with every maximal run of whitespace replaced
  by one \<open>|\<close>, every other character (an underscore too) kept in place and in order.
\<close>

theorem normalize_token_encodes:
  assumes "s \<noteq> PNone" and "str_strip (py_str s) \<noteq> []"
    and "str_lower (str_strip (py_str s)) \<noteq> ''null''"
  shows "\<exists>lead trail.
           py_str s = lead @ str_strip (py_str s) @ trail
           \<and> list_all is_space lead \<and> list_all is_space trail
           \<and> \<not> is_space (hd (str_strip (py_str s)))
           \<and> \<not> is_space (last (str_strip (py_str s)))
           \<and> encodes (str_strip (py_str s)) (normalize_token s d)"
proof -
  let ?t = "py_str s"
  let ?lead = "takeWhile is_space ?t"
  let ?trail = "rev (takeWhile is_space (rev (dropWhile is_space ?t)))"
  have ends: "\<not> is_space (hd (str_strip ?t))" "\<not> is_space (last (str_strip ?t))"
    using assms(2) by (rule str_strip_ends)+
  have "normalize_token s d = re_sub_spaces ''|'' (str_strip ?t)"
    using assms by (simp add: normalize_token_def SPACE_ENC_def)
  moreover have "encodes (str_strip ?t) (re_sub_spaces ''|'' (str_strip ?t))"
    using assms(2) ends by (rule encodes_re_sub)
  ultimately have enc: "encodes (str_strip ?t) (normalize_token s d)" by simp
  have "list_all is_space ?lead"
    by (auto simp: list_all_iff dest: set_takeWhileD)
  moreover have "list_all is_space ?trail"
    by (auto simp: list_all_iff dest: set_takeWhileD)
  moreover have "?t = ?lead @ str_strip ?t @ ?trail" by (rule str_strip_decomp)
  ultimately show ?thesis using ends enc by blast
qed

theorem normalize_token_encodes_witness:
  "normalize_token (PScalar ''  a  b_c d '') ''X'' = ''a|b_c|d''
   \<and> encodes ''a  b_c d'' ''a|b_c|d''"
proof -
  have s: "str_strip ''  a  b_c d '' = ''a  b_c d''"
    by (simp add: str_strip_def is_space_def)
  have l: "str_lower ''a  b_c d'' \<noteq> ''null''"
    by (simp add: str_lower_def)
  have n: "normalize_token (PScalar ''  a  b_c d '') ''X'' = ''a|b_c|d''"
    by code_simp
  show ?thesis
    using normalize_token_encodes [of "PScalar ''  a  b_c d ''" "''X''"] s l n
    by auto
qed

text \<open>
  C3 as stated fails: \<open>" null "\<close> is not \<open>None\<close>, is not empty after trimming and is not
  equal to \<open>null\<close> in any case (it has spaces around), yet the result is the default, not
  the trimmed text.
\<close>

theorem normalize_token_null_after_trim_counterexample:
  "PScalar '' null '' \<noteq> PNone
   \<and> str_strip (py_str (PScalar '' null '')) \<noteq> []
   \<and> str_lower (py_str (PScalar '' null '')) \<noteq> ''null''
   \<and> normalize_token (PScalar '' null '') ''X'' = ''X''
   \<and> str_strip (py_str (PScalar '' null '')) = ''null''"
  by (simp add: normalize_token_def str_strip_def str_lower_def is_space_def lower_char_def
      is_upper_def)

section \<open>The schema resolver\<close>

lemma load_config_empty: "load_config py_int Map.empty = Inr default_config"
  by (simp add: load_config_def default_config_def env_str_def env_def env_int_def
      safe_ident_def allowed_char_def is_digit_def is_space_def str_lower_def lower_char_def
      is_upper_def py_Path_def Let_def)

lemma suffix_map_iff:
  "suffix sfx (map f v) \<longleftrightarrow> (\<exists>p t. v = p @ t \<and> map f t = sfx)"
proof
  assume "suffix sfx (map f v)"
  then obtain zs where zs: "map f v = zs @ sfx" by (auto simp: suffix_def)
  have "v = take (length zs) v @ drop (length zs) v" by simp
  moreover have "map f (drop (length zs) v) = sfx"
    using zs by (metis append_eq_conv_conj drop_map)
  ultimately show "\<exists>p t. v = p @ t \<and> map f t = sfx" by blast
next
  assume "\<exists>p t. v = p @ t \<and> map f t = sfx"
  then show "suffix sfx (map f v)" by (auto simp: suffix_def)
qed

text \<open>
  C5. The mode \<open>station_list_source\<close> selects the modern schema and the mode
  \<open>etat_antennes4\<close> the legacy one, whatever the view is called; under \<open>auto\<close> the
  modern schema is selected exactly when the view name ends with a text that is
  \<open>station_list_source\<close> once lowered, and the legacy schema otherwise.
\<close>

theorem schema_resolution:
  "(mode cfg = ''station_list_source'' \<longrightarrow> is_station_list_source_view cfg)
   \<and> (mode cfg = ''etat_antennes4'' \<longrightarrow> \<not> is_station_list_source_view cfg)
   \<and> (mode cfg = ''auto'' \<longrightarrow>
        is_station_list_source_view cfg
          = (\<exists>p t. view cfg = p @ t \<and> str_lower t = ''station_list_source''))"
  by (simp add: is_station_list_source_view_def str_endswith_def str_lower_def suffix_map_iff)

theorem schema_resolution_witness:
  "is_station_list_source_view
     (default_config\<lparr>mode := ''station_list_source'', view := ''public.etat_antennes4''\<rparr>)
   \<and> \<not> is_station_list_source_view (default_config\<lparr>mode := ''etat_antennes4''\<rparr>)
   \<and> is_station_list_source_view (default_config\<lparr>view := ''Public.Station_List_SOURCE''\<rparr>)"
proof -
  have l: "str_lower ''Station_List_SOURCE'' = ''station_list_source''"
    by code_simp
  have "''Public.Station_List_SOURCE'' = ''Public.'' @ ''Station_List_SOURCE''" by simp
  with l have e: "\<exists>p t. ''Public.Station_List_SOURCE'' = p @ t
                    \<and> str_lower t = ''station_list_source''"
    by blast
  show ?thesis
    using schema_resolution
        [of "default_config\<lparr>mode := ''station_list_source'', view := ''public.etat_antennes4''\<rparr>"]
      schema_resolution [of "default_config\<lparr>mode := ''etat_antennes4''\<rparr>"]
      schema_resolution [of "default_config\<lparr>view := ''Public.Station_List_SOURCE''\<rparr>"] e
    by (simp add: default_config_def)
qed

section \<open>The row formatter\<close>

lemmas eval_simps =
  normalize_token_def str_strip_def str_lower_def lower_char_def is_upper_def is_space_def
  is_digit_def SPACE_ENC_def format_float_def parse_ecef_xyz_def FLOAT_RE_match_def opt_sign_def
  digits1_def opt_fraction_def opt_exponent_def row_fields_def row_line_def NL_def Let_def

text \<open>
  C2, as amended. With the antenna-offset defaults \<open>0.0\<close>, the legacy row of the scenario
  gives the line \<open>ABC ABC 1.1 2.2 3.3 UNKNOWN v1 TRM;NONE 0.0 0.0 0.0\<close>: the antenna
  descriptor \<open>TRM;NONE\<close> holds no whitespace, so it is written as it is.
\<close>

theorem scenario_line:
  assumes "ant_h_default cfg = ''0.0''" and "ant_e_default cfg = ''0.0''"
    and "ant_n_default cfg = ''0.0''"
  shows "row_line cfg scenario_row
           = Some (''ABC ABC 1.1 2.2 3.3 UNKNOWN v1 TRM;NONE 0.0 0.0 0.0'' @ NL)"
  using assms by (simp add: scenario_row_def eval_simps)

theorem scenario_line_witness:
  "row_line (default_config\<lparr>mode := ''etat_antennes4''\<rparr>) scenario_row
     = Some (''ABC ABC 1.1 2.2 3.3 UNKNOWN v1 TRM;NONE 0.0 0.0 0.0'' @ NL)"
  using scenario_line [of "default_config\<lparr>mode := ''etat_antennes4''\<rparr>"]
  by (simp add: default_config_def)

text \<open>
  C2 as stated fails: the line is not the one with \<open>TRM|;|NONE\<close>.
\<close>

theorem scenario_line_counterexample:
  "row_line (default_config\<lparr>mode := ''etat_antennes4''\<rparr>) scenario_row
     \<noteq> Some (''ABC ABC 1.1 2.2 3.3 UNKNOWN v1 TRM|;|NONE 0.0 0.0 0.0'' @ NL)"
  by (simp add: scenario_row_def default_config_def eval_simps)

text \<open>
  C10. Under the modern schema a row of at least 6 and fewer than 11 columns is not
  passed over: its first six columns are read as the legacy columns (mountpoint, RINEX
  id, ECEF, receiver, version, antenna), the three antenna offsets are the configured
  defaults, and the fields are those the legacy schema gives the same row.
\<close>

theorem modern_short_row_legacy_path:
  assumes "is_station_list_source_view cfg" and "6 \<le> length row" and "length row < 11"
  shows "row_fields cfg row
           = Some [normalize_token (row ! 0) [],
                   normalize_token (row ! 1) (normalize_token (row ! 0) []),
                   fst (case parse_ecef_xyz (row ! 2) of None \<Rightarrow> ([], [], []) | Some t \<Rightarrow> t),
                   fst (snd (case parse_ecef_xyz (row ! 2) of None \<Rightarrow> ([], [], []) | Some t \<Rightarrow> t)),
                   snd (snd (case parse_ecef_xyz (row ! 2) of None \<Rightarrow> ([], [], []) | Some t \<Rightarrow> t)),
                   normalize_token (row ! 3) ''UNKNOWN'',
                   normalize_token (row ! 4) ''UNKNOWN'',
                   normalize_token (row ! 5) ''NONE|NONE'',
                   ant_h_default cfg, ant_e_default cfg, ant_n_default cfg]
         \<and> row_fields cfg row = row_fields (cfg\<lparr>mode := ''etat_antennes4''\<rparr>) row"
  using assms by (simp add: row_fields_def Let_def)

theorem modern_short_row_legacy_path_witness:
  "is_station_list_source_view default_config
   \<and> row_fields default_config (scenario_row @ [PScalar ''1.5''])
       = Some [''ABC'', ''ABC'', ''1.1'', ''2.2'', ''3.3'', ''UNKNOWN'', ''v1'', ''TRM;NONE'',
               ''0.0'', ''0.0'', ''0.0'']"
proof -
  have m: "is_station_list_source_view default_config" by code_simp
  have l: "6 \<le> length (scenario_row @ [PScalar ''1.5''])"
    "length (scenario_row @ [PScalar ''1.5'']) < 11"
    by (simp_all add: scenario_row_def)
  have e: "row_fields (default_config\<lparr>mode := ''etat_antennes4''\<rparr>) (scenario_row @ [PScalar ''1.5''])
       = Some [''ABC'', ''ABC'', ''1.1'', ''2.2'', ''3.3'', ''UNKNOWN'', ''v1'', ''TRM;NONE'',
               ''0.0'', ''0.0'', ''0.0'']"
    by code_simp
  have "row_fields default_config (scenario_row @ [PScalar ''1.5''])
          = row_fields (default_config\<lparr>mode := ''etat_antennes4''\<rparr>) (scenario_row @ [PScalar ''1.5''])"
    using modern_short_row_legacy_path [OF m l] by (rule conjunct2)
  then have "row_fields default_config (scenario_row @ [PScalar ''1.5''])
       = Some [''ABC'', ''ABC'', ''1.1'', ''2.2'', ''3.3'', ''UNKNOWN'', ''v1'', ''TRM;NONE'',
               ''0.0'', ''0.0'', ''0.0'']"
    using e by (rule trans)
  with m show ?thesis by (rule conjI)
qed

lemma row_line_None_iff: "row_line cfg row = None \<longleftrightarrow> length row < 6"
  by (auto simp: row_line_def row_fields_def Let_def)

lemma rows_loop_eq:
  "rows_loop cfg rows (written, count)
     = (written @ List.map_filter (row_line cfg) rows,
        count + length (List.map_filter (row_line cfg) rows))"
proof (induction rows arbitrary: written count)
  case Nil
  then show ?case by (simp add: List.map_filter_simps)
next
  case (Cons row rows)
  then show ?case by (cases "row_line cfg row") (simp_all add: List.map_filter_simps)
qed

lemma length_map_filter_rows:
  "length (List.map_filter (row_line cfg) rows) = length (filter (\<lambda>row. 6 \<le> length row) rows)"
proof (induction rows)
  case Nil
  then show ?case by (simp add: List.map_filter_simps)
next
  case (Cons row rows)
  show ?case
  proof (cases "row_line cfg row")
    case None
    then have "length row < 6" by (simp add: row_line_None_iff)
    with None Cons show ?thesis by (simp add: List.map_filter_simps)
  next
    case (Some l)
    then have "\<not> length row < 6" using row_line_None_iff [of cfg row] by simp
    with Some Cons show ?thesis by (simp add: List.map_filter_simps)
  qed
qed

section \<open>The file writer\<close>

lemma path_suffix_of_name:
  "path_suffix p \<noteq> [] \<Longrightarrow>
     take (length (path_name p) - length (path_suffix p)) (path_name p) @ path_suffix p = path_name p"
  by (auto simp: path_suffix_def split: option.splits if_splits)

lemma with_suffix_tmp:
  assumes "with_suffix out (path_suffix out @ ''.tmp'') = Inr tmp"
  shows "path_name out \<noteq> []"
    and "tmp = out\<lparr>parts := butlast (parts out) @ [path_name out @ ''.tmp'']\<rparr>"
proof -
  from assms show n: "path_name out \<noteq> []"
    by (auto simp: with_suffix_def split: if_splits)
  have "(if path_suffix out = [] then path_name out @ path_suffix out @ ''.tmp''
         else take (length (path_name out) - length (path_suffix out)) (path_name out)
              @ path_suffix out @ ''.tmp'') = path_name out @ ''.tmp''"
    using path_suffix_of_name [of out]
    by (cases "path_suffix out = []") (simp_all del: append_assoc add: append_assoc [symmetric])
  with assms n show "tmp = out\<lparr>parts := butlast (parts out) @ [path_name out @ ''.tmp'']\<rparr>"
    by (auto simp: with_suffix_def Let_def split: if_splits)
qed

lemma with_suffix_tmp_neq:
  assumes "with_suffix out (path_suffix out @ ''.tmp'') = Inr tmp"
  shows "tmp \<noteq> out"
proof
  assume "tmp = out"
  with with_suffix_tmp [OF assms]
  have n: "path_name out \<noteq> []" and p: "parts out = butlast (parts out) @ [path_name out @ ''.tmp'']"
    by (auto dest: arg_cong [where f = parts])
  from n have "parts out \<noteq> []" and "path_name out = last (parts out)"
    by (auto simp: path_name_def split: if_splits)
  moreover from p have "last (parts out) = path_name out @ ''.tmp''"
    by (metis last_snoc)
  ultimately show False by simp
qed

lemma write_chunks_frame:
  "p \<noteq> tmp \<Longrightarrow> s \<in> set (snd (write_chunks faults k tmp cs st)) \<Longrightarrow> s p = st p"
proof (induction cs arbitrary: k st)
  case Nil
  then show ?case by simp
next
  case (Cons c cs)
  then show ?case by (fastforce simp: Let_def split: if_splits)
qed

lemma write_chunks_result:
  "fst (write_chunks faults k tmp cs st) = Inr st' \<Longrightarrow> st tmp = Some old \<Longrightarrow>
     st' tmp = Some (old @ concat cs) \<and> (\<forall>p. p \<noteq> tmp \<longrightarrow> st' p = st p)"
proof (induction cs arbitrary: k st old)
  case Nil
  then show ?case by simp
next
  case (Cons c cs)
  from Cons.prems(1) have nf: "\<not> faults k" by (auto split: if_splits)
  let ?st = "st(tmp \<mapsto> old @ c)"
  from Cons.prems nf have "fst (write_chunks faults (Suc k) tmp cs ?st) = Inr st'"
    by (simp add: Let_def)
  moreover have "?st tmp = Some (old @ c)" by simp
  ultimately have "st' tmp = Some ((old @ c) @ concat cs) \<and> (\<forall>p. p \<noteq> tmp \<longrightarrow> st' p = ?st p)"
    by (rule Cons.IH)
  then show ?case by simp
qed

lemma write_station_list_run:
  assumes "write_station_list faults ts cfg rows st0 = (res, trace)"
  shows "(\<forall>s\<in>set (butlast trace). s (output_path cfg) = st0 (output_path cfg))
       \<and> (isl res \<longrightarrow> (\<forall>s\<in>set trace. s (output_path cfg) = st0 (output_path cfg)))
       \<and> (\<not> isl res \<longrightarrow>
            res = Inr (length (List.map_filter (row_line cfg) rows))
            \<and> trace \<noteq> []
            \<and> last trace (output_path cfg)
                = Some (concat (header ts cfg @ List.map_filter (row_line cfg) rows)))
       \<and> (\<forall>s\<in>set trace. \<forall>p.
            p \<noteq> output_path cfg
            \<and> p \<noteq> (output_path cfg)\<lparr>parts := butlast (parts (output_path cfg))
                                          @ [path_name (output_path cfg) @ ''.tmp'']\<rparr>
            \<longrightarrow> s p = st0 p)"
proof -
  let ?out = "output_path cfg"
  let ?T = "?out\<lparr>parts := butlast (parts ?out) @ [path_name ?out @ ''.tmp'']\<rparr>"
  let ?P = "\<lambda>s. s ?out = st0 ?out \<and> (\<forall>p. p \<noteq> ?out \<and> p \<noteq> ?T \<longrightarrow> s p = st0 p)"
  define chunks where "chunks = header ts cfg @ fst (rows_loop cfg rows ([], 0))"
  have chunks: "chunks = header ts cfg @ List.map_filter (row_line cfg) rows"
    by (simp add: chunks_def rows_loop_eq)
  show ?thesis
  proof (cases "faults 0")
    case True
    with assms show ?thesis by (auto simp: write_station_list_def)
  next
    case f0: False
    show ?thesis
    proof (cases "with_suffix ?out (path_suffix ?out @ ''.tmp'')")
      case (Inl e)
      with assms f0 show ?thesis by (auto simp: write_station_list_def)
    next
      case ws: (Inr tmp)
      have tmp: "tmp = ?T" using ws by (rule with_suffix_tmp(2))
      have neq: "?out \<noteq> tmp" using with_suffix_tmp_neq [OF ws] by auto
      show ?thesis
      proof (cases "faults 1")
        case True
        with assms f0 ws show ?thesis by (auto simp: write_station_list_def)
      next
        case f1: False
        define st1 where "st1 = st0(tmp \<mapsto> [])"
        define w where "w = write_chunks faults 2 tmp chunks st1"
        define k where "k = 2 + length chunks"
        have W: "write_station_list faults ts cfg rows st0 =
                   (case fst w of
                      Inl e \<Rightarrow> (Inl e, st1 # snd w)
                    | Inr st2 \<Rightarrow>
                        if faults k then (Inl OSError, st1 # snd w)
                        else if faults (Suc k) then (Inl OSError, st1 # snd w)
                        else (Inr (snd (rows_loop cfg rows ([], 0))),
                              st1 # snd w @ [st2(?out := st2 tmp, tmp := None)]))"
          unfolding write_station_list_def Let_def chunks_def st1_def w_def k_def
          by (simp only: f0 f1 ws if_False sum.case)
        have st1: "?P st1" using neq by (auto simp: st1_def tmp)
        have mid: "?P s" if "s \<in> set (snd w)" for s
        proof -
          have "s p = st1 p" if "p \<noteq> tmp" for p
            using that \<open>s \<in> set (snd w)\<close> unfolding w_def by (rule write_chunks_frame)
          then show ?thesis using st1 neq tmp by auto
        qed
        have pre: "\<forall>s\<in>set (st1 # snd w). ?P s" using st1 mid by auto
        show ?thesis
        proof (cases "fst w")
          case (Inl e)
          with W assms have "res = Inl e" and "trace = st1 # snd w" by simp_all
          then show ?thesis using pre by (auto dest: in_set_butlastD)
        next
          case (Inr st2)
          have "st1 tmp = Some []" by (simp add: st1_def)
          with Inr have r: "st2 tmp = Some ([] @ concat chunks) \<and> (\<forall>p. p \<noteq> tmp \<longrightarrow> st2 p = st1 p)"
            unfolding w_def by (rule write_chunks_result)
          show ?thesis
          proof (cases "faults k \<or> faults (Suc k)")
            case True
            with W Inr assms have "res = Inl OSError" and "trace = st1 # snd w" by (auto split: if_splits)
            then show ?thesis using pre by (auto dest: in_set_butlastD)
          next
            case False
            define fin where "fin = st2(?out := st2 tmp, tmp := None)"
            from False W Inr assms
            have res0: "res = Inr (snd (rows_loop cfg rows ([], 0)))"
              and tr: "trace = (st1 # snd w) @ [fin]" by (auto simp: fin_def split: if_splits)
            have res: "res = Inr (length (List.map_filter (row_line cfg) rows))"
              unfolding res0 by (simp add: rows_loop_eq)
            have bl: "butlast trace = st1 # snd w" unfolding tr by (rule butlast_snoc)
            have la: "last trace = fin" unfolding tr by (rule last_snoc)
            have ne: "trace \<noteq> []" unfolding tr by simp
            have 1: "\<forall>s\<in>set (butlast trace). ?P s" unfolding bl by (rule pre)
            have 2: "fin ?out = Some (concat chunks)" using r neq by (simp add: fin_def)
            have 3: "\<forall>p. p \<noteq> ?out \<and> p \<noteq> ?T \<longrightarrow> fin p = st0 p"
              using r st1 tmp by (auto simp: fin_def)
            have 4: "set trace = insert fin (set (butlast trace))"
              unfolding bl unfolding tr by auto
            have c1: "\<forall>s\<in>set (butlast trace). s ?out = st0 ?out" using 1 by blast
            have c3: "last trace ?out = Some (concat (header ts cfg @ List.map_filter (row_line cfg) rows))"
              using 2 la chunks by simp
            have c4: "\<forall>s\<in>set trace. \<forall>p. p \<noteq> ?out \<and> p \<noteq> ?T \<longrightarrow> s p = st0 p"
              unfolding 4 using 1 3 by simp
            show ?thesis using res ne c1 c3 c4 by simp
          qed
        qed
      qed
    qed
  qed
qed

lemma write_chunks_no_fault:
  "\<forall>k. \<not> faults k \<Longrightarrow> \<not> isl (fst (write_chunks faults k tmp cs st))"
  by (induction cs arbitrary: k st) (simp_all add: Let_def)

lemma rfind_dot_char:
  assumes "rfind_dot name = Some i"
  shows "i < length name" and "name ! i = CHR ''.''"
proof -
  let ?P = "\<lambda>c. c \<noteq> CHR ''.''"
  define tw where "tw = takeWhile ?P (rev name)"
  define dw where "dw = dropWhile ?P (rev name)"
  from assms have mem: "CHR ''.'' \<in> set name" and i: "i = length name - 1 - length tw"
    by (auto simp: rfind_dot_def tw_def split: if_splits)
  have r: "rev name = tw @ dw" by (simp add: tw_def dw_def)
  have dw: "dw \<noteq> []" using mem by (auto simp: dw_def)
  then have hd: "hd dw = CHR ''.''" unfolding dw_def using hd_dropWhile [of ?P "rev name"] by auto
  from r have n: "name = rev dw @ rev tw" by (metis rev_append rev_rev_ident)
  have len: "length name = length dw + length tw" using n by simp
  with dw have i': "i = length dw - 1" and "0 < length dw" using i by (cases dw; simp)+
  then show "i < length name" using len dw by (cases dw) auto
  have "name ! i = rev dw ! (length dw - 1)" using n i' \<open>0 < length dw\<close> by (simp add: nth_append)
  also have "\<dots> = last (rev dw)" using dw by (simp add: last_conv_nth)
  also have "\<dots> = hd dw" using dw by (simp add: last_rev)
  finally show "name ! i = CHR ''.''" using hd by simp
qed

lemma path_suffix_dot: "path_suffix p \<noteq> [] \<Longrightarrow> prefix ''.'' (path_suffix p)"
proof -
  assume a: "path_suffix p \<noteq> []"
  then obtain i where i: "rfind_dot (path_name p) = Some i"
    and s: "path_suffix p = drop i (path_name p)"
    by (auto simp: path_suffix_def split: option.splits if_splits)
  from rfind_dot_char [OF i] have "drop i (path_name p) = CHR ''.'' # drop (Suc i) (path_name p)"
    by (metis Cons_nth_drop_Suc)
  with s show ?thesis by simp
qed

lemma with_suffix_ok:
  assumes "path_name out \<noteq> []" and "CHR ''/'' \<notin> set (path_name out)"
  shows "\<not> isl (with_suffix out (path_suffix out @ ''.tmp''))"
proof -
  have "set (path_suffix out) \<subseteq> set (path_name out)"
    by (auto simp: path_suffix_def split: option.splits dest: in_set_dropD)
  with assms(2) have 1: "CHR ''/'' \<notin> set (path_suffix out @ ''.tmp'')" by auto
  have 2: "prefix ''.'' (path_suffix out @ ''.tmp'')"
    using path_suffix_dot [of out] by (cases "path_suffix out = []") auto
  have 3: "path_suffix out @ ''.tmp'' \<noteq> ''.''" by (cases "path_suffix out") auto
  from 1 2 3 assms(1) show ?thesis by (simp add: with_suffix_def Let_def)
qed

lemma write_station_list_no_fault:
  assumes "\<forall>k. \<not> faults k" and "path_name (output_path cfg) \<noteq> []"
    and "CHR ''/'' \<notin> set (path_name (output_path cfg))"
  shows "\<not> isl (fst (write_station_list faults ts cfg rows st0))"
proof -
  from with_suffix_ok [OF assms(2,3)]
  obtain tmp where t: "with_suffix (output_path cfg) (path_suffix (output_path cfg) @ ''.tmp'') = Inr tmp"
    by (cases "with_suffix (output_path cfg) (path_suffix (output_path cfg) @ ''.tmp'')") auto
  have "\<not> isl (fst (write_chunks faults 2 tmp
                         (header ts cfg @ fst (rows_loop cfg rows ([], 0))) (st0(tmp \<mapsto> []))))"
    using assms(1) by (rule write_chunks_no_fault)
  then show ?thesis
    using assms(1) t by (auto simp: write_station_list_def Let_def split: sum.splits)
qed

text \<open>
  C9. Whatever call fails, and when none does: in every state of the file system before
  the last one the target holds what it held before the call; when the function raises,
  the target is unchanged in every state; when it returns, the last state is the rename,
  and the target then holds the whole content (the header and every data line); and no
  path other than the target and its sibling \<open>name.tmp\<close> is ever changed.
\<close>

theorem write_station_list_atomic:
  assumes "write_station_list faults ts cfg rows st0 = (res, trace)"
  shows "(\<forall>s\<in>set (butlast trace). s (output_path cfg) = st0 (output_path cfg))
       \<and> (isl res \<longrightarrow> (\<forall>s\<in>set trace. s (output_path cfg) = st0 (output_path cfg)))
       \<and> (\<not> isl res \<longrightarrow>
            trace \<noteq> []
            \<and> last trace (output_path cfg)
                = Some (concat (header ts cfg @ List.map_filter (row_line cfg) rows)))
       \<and> (\<forall>s\<in>set trace. \<forall>p.
            p \<noteq> output_path cfg
            \<and> p \<noteq> (output_path cfg)\<lparr>parts := butlast (parts (output_path cfg))
                                          @ [path_name (output_path cfg) @ ''.tmp'']\<rparr>
            \<longrightarrow> s p = st0 p)"
  using write_station_list_run [OF assms] by blast

theorem write_station_list_atomic_witness:
  "fst (write_station_list (\<lambda>k. k = 5) example_ts default_config [scenario_row] example_fs)
     = Inl OSError
   \<and> list_all (\<lambda>s. s (output_path default_config) = Some ''old'')
        (snd (write_station_list (\<lambda>k. k = 5) example_ts default_config [scenario_row] example_fs))
   \<and> fst (write_station_list (\<lambda>k. False) example_ts default_config [scenario_row] example_fs)
     = Inr 1
   \<and> last (snd (write_station_list (\<lambda>k. False) example_ts default_config [scenario_row]
                 example_fs)) (output_path default_config)
     = Some (concat (header example_ts default_config
                     @ [''ABC ABC 1.1 2.2 3.3 UNKNOWN v1 TRM;NONE 0.0 0.0 0.0'' @ NL]))"
proof -
  let ?Wf = "write_station_list (\<lambda>k. k = 5) example_ts default_config [scenario_row] example_fs"
  let ?Wo = "write_station_list (\<lambda>k. False) example_ts default_config [scenario_row] example_fs"
  have f: "fst ?Wf = Inl OSError" by code_simp
  have o: "fst ?Wo = Inr 1" by code_simp
  have old: "example_fs (output_path default_config) = Some ''old''"
    by (simp add: example_fs_def)
  have l: "List.map_filter (row_line default_config) [scenario_row]
             = [''ABC ABC 1.1 2.2 3.3 UNKNOWN v1 TRM;NONE 0.0 0.0 0.0'' @ NL]"
    by code_simp
  have "?Wf = (fst ?Wf, snd ?Wf)" by simp
  from write_station_list_atomic [OF this] f old
  have 1: "list_all (\<lambda>s. s (output_path default_config) = Some ''old'') (snd ?Wf)"
    by (simp add: list_all_iff)
  have "?Wo = (fst ?Wo, snd ?Wo)" by simp
  from write_station_list_atomic [OF this] o l
  have 2: "last (snd ?Wo) (output_path default_config)
     = Some (concat (header example_ts default_config
                     @ [''ABC ABC 1.1 2.2 3.3 UNKNOWN v1 TRM;NONE 0.0 0.0 0.0'' @ NL]))"
    by simp
  from f 1 o 2 show ?thesis by blast
qed

text \<open>
  C8. A row of fewer than 6 columns gives no line. When \<open>write_station_list\<close> returns
  \<open>n\<close>, \<open>n\<close> is the number of rows of at least 6 columns, which is the number of data
  lines written, and the target holds the header and exactly these lines. Short rows
  raise nothing: when no file-system call fails and the target has a name, the function
  returns that count.
\<close>

theorem short_rows_skipped_count:
  "(length row < 6 \<longrightarrow> row_line cfg row = None)
   \<and> (write_station_list faults ts cfg rows st0 = (Inr n, trace) \<longrightarrow>
        n = length (filter (\<lambda>row. 6 \<le> length row) rows)
        \<and> n = length (List.map_filter (row_line cfg) rows)
        \<and> last trace (output_path cfg)
            = Some (concat (header ts cfg @ List.map_filter (row_line cfg) rows)))
   \<and> ((\<forall>k. \<not> faults k) \<and> path_name (output_path cfg) \<noteq> []
        \<and> CHR ''/'' \<notin> set (path_name (output_path cfg)) \<longrightarrow>
        fst (write_station_list faults ts cfg rows st0)
          = Inr (length (filter (\<lambda>row. 6 \<le> length row) rows)))"
proof (intro conjI impI)
  assume "length row < 6"
  then show "row_line cfg row = None" by (simp add: row_line_None_iff)
next
  assume W: "write_station_list faults ts cfg rows st0 = (Inr n, trace)"
  from write_station_list_run [OF W]
  have n: "n = length (List.map_filter (row_line cfg) rows)"
    and c: "last trace (output_path cfg)
            = Some (concat (header ts cfg @ List.map_filter (row_line cfg) rows))"
    by simp_all
  from n show "n = length (List.map_filter (row_line cfg) rows)" .
  from n show "n = length (filter (\<lambda>row. 6 \<le> length row) rows)"
    by (simp add: length_map_filter_rows)
  from c show "last trace (output_path cfg)
            = Some (concat (header ts cfg @ List.map_filter (row_line cfg) rows))" .
next
  assume a: "(\<forall>k. \<not> faults k) \<and> path_name (output_path cfg) \<noteq> []
        \<and> CHR ''/'' \<notin> set (path_name (output_path cfg))"
  let ?W = "write_station_list faults ts cfg rows st0"
  from a have "\<not> isl (fst ?W)" by (intro write_station_list_no_fault) simp_all
  moreover have "?W = (fst ?W, snd ?W)" by simp
  ultimately have "fst ?W = Inr (length (List.map_filter (row_line cfg) rows))"
    using write_station_list_run [of faults ts cfg rows st0 "fst ?W" "snd ?W"] by blast
  then show "fst ?W = Inr (length (filter (\<lambda>row. 6 \<le> length row) rows))"
    by (simp add: length_map_filter_rows)
qed

theorem short_rows_skipped_count_witness:
  "row_line default_config [PScalar ''ABC'', PNone, PNone] = None
   \<and> write_station_list (\<lambda>k. False) example_ts default_config
         [[PScalar ''ABC'', PNone, PNone], scenario_row, []] example_fs
       = (Inr 1, snd (write_station_list (\<lambda>k. False) example_ts default_config
                        [[PScalar ''ABC'', PNone, PNone], scenario_row, []] example_fs))
   \<and> last (snd (write_station_list (\<lambda>k. False) example_ts default_config
                  [[PScalar ''ABC'', PNone, PNone], scenario_row, []] example_fs))
        (output_path default_config)
       = Some (concat (header example_ts default_config
                       @ [''ABC ABC 1.1 2.2 3.3 UNKNOWN v1 TRM;NONE 0.0 0.0 0.0'' @ NL]))"
proof -
  let ?rows = "[[PScalar ''ABC'', PNone, PNone], scenario_row, []]"
  let ?W = "write_station_list (\<lambda>k. False) example_ts default_config ?rows example_fs"
  note T = short_rows_skipped_count
    [of "[PScalar ''ABC'', PNone, PNone]" default_config "\<lambda>k. False" example_ts ?rows example_fs
      1 "snd ?W"]
  have p: "path_name (output_path default_config) \<noteq> []
           \<and> CHR ''/'' \<notin> set (path_name (output_path default_config))"
    by (simp add: default_config_def path_name_def)
  have c: "length (filter (\<lambda>row. 6 \<le> length row) ?rows) = 1"
    by (simp add: scenario_row_def)
  have l: "List.map_filter (row_line default_config) ?rows
             = [''ABC ABC 1.1 2.2 3.3 UNKNOWN v1 TRM;NONE 0.0 0.0 0.0'' @ NL]"
    by code_simp
  from T p c have f: "fst ?W = Inr 1" by simp
  then have W: "?W = (Inr 1, snd ?W)" by (metis prod.collapse)
  from T have 1: "row_line default_config [PScalar ''ABC'', PNone, PNone] = None" by simp
  from T W l have 2: "last (snd ?W) (output_path default_config)
       = Some (concat (header example_ts default_config
                       @ [''ABC ABC 1.1 2.2 3.3 UNKNOWN v1 TRM;NONE 0.0 0.0 0.0'' @ NL]))"
    by simp
  from 1 W 2 show ?thesis by blast
qed

section \<open>The guardrail of the configuration\<close>

lemma env_str_nonempty: "d \<noteq> [] \<Longrightarrow> env_str environ name d \<noteq> []"
  by (auto simp: env_str_def env_def split: option.splits if_splits)

lemma safe_ident_Inr: "s \<noteq> [] \<Longrightarrow> list_all allowed_char s \<Longrightarrow> safe_ident s what = Inr s"
  by (simp add: safe_ident_def)

lemma safe_ident_Inl:
  "s = [] \<or> \<not> list_all allowed_char s \<Longrightarrow>
     safe_ident s what = Inl (ValueError (''Invalid '' @ what @ '': '' @ s))"
  by (auto simp: safe_ident_def)

lemma load_config_cases:
  "load_config py_int environ =
     (case safe_ident (env_str environ ''QUERYDB_VIEW'' ''public.station_list_source'') ''QUERYDB_VIEW'' of
        Inl e \<Rightarrow> Inl e
      | Inr _ \<Rightarrow>
          (case safe_ident (env_str environ ''QUERYDB_ORDER_BY'' ''mp'') ''QUERYDB_ORDER_BY'' of
             Inl e \<Rightarrow> Inl e
           | Inr _ \<Rightarrow> load_config py_int environ))"
  by (simp add: load_config_def Let_def split: sum.splits)

lemma load_config_view:
  "load_config py_int environ = Inr cfg \<Longrightarrow>
     view cfg = env_str environ ''QUERYDB_VIEW'' ''public.station_list_source''
     \<and> order_by cfg = env_str environ ''QUERYDB_ORDER_BY'' ''mp''"
  by (auto simp: load_config_def Let_def split: sum.splits)

text \<open>
  C6, as amended. A string with a character outside the class (letters, digits,
  underscore, dot, comma, whitespace) is refused with a \<open>ValueError\<close>; a non-empty string
  of characters of the class is returned unchanged. When the view name or the order-by
  clause of the environment holds a character outside the class, \<open>load_config\<close> raises
  that error and no query text is built; when both hold only characters of the class,
  \<open>load_config\<close> returns a configuration with both unchanged (neither can be empty: an
  unset or blank variable takes its default).
\<close>

theorem safe_ident_allow_list:
  "((\<exists>c\<in>set s. \<not> allowed_char c) \<longrightarrow>
      safe_ident s what = Inl (ValueError (''Invalid '' @ what @ '': '' @ s)))
   \<and> (s \<noteq> [] \<and> list_all allowed_char s \<longrightarrow> safe_ident s what = Inr s)
   \<and> ((\<exists>c \<in> set (env_str environ ''QUERYDB_VIEW'' ''public.station_list_source'')
              \<union> set (env_str environ ''QUERYDB_ORDER_BY'' ''mp''). \<not> allowed_char c) \<longrightarrow>
        (\<exists>m. load_config py_int environ = Inl (ValueError m))
        \<and> (\<exists>m. startup_sql py_int environ = Inl (ValueError m)))
   \<and> (list_all allowed_char (env_str environ ''QUERYDB_VIEW'' ''public.station_list_source'')
        \<and> list_all allowed_char (env_str environ ''QUERYDB_ORDER_BY'' ''mp'') \<longrightarrow>
        (\<exists>cfg. load_config py_int environ = Inr cfg
           \<and> view cfg = env_str environ ''QUERYDB_VIEW'' ''public.station_list_source''
           \<and> order_by cfg = env_str environ ''QUERYDB_ORDER_BY'' ''mp''
           \<and> startup_sql py_int environ = Inr (build_sql cfg)))"
proof (intro conjI impI)
  assume "\<exists>c\<in>set s. \<not> allowed_char c"
  then have "\<not> list_all allowed_char s" by (auto simp: list_all_iff)
  then show "safe_ident s what = Inl (ValueError (''Invalid '' @ what @ '': '' @ s))"
    by (simp add: safe_ident_Inl)
next
  assume "s \<noteq> [] \<and> list_all allowed_char s"
  then show "safe_ident s what = Inr s" by (simp add: safe_ident_Inr)
next
  let ?v = "env_str environ ''QUERYDB_VIEW'' ''public.station_list_source''"
  let ?o = "env_str environ ''QUERYDB_ORDER_BY'' ''mp''"
  assume "\<exists>c \<in> set ?v \<union> set ?o. \<not> allowed_char c"
  then have "\<not> list_all allowed_char ?v \<or> \<not> list_all allowed_char ?o"
    by (auto simp: list_all_iff)
  then have "(\<exists>m. safe_ident ?v ''QUERYDB_VIEW'' = Inl (ValueError m))
             \<or> (\<exists>m. safe_ident ?o ''QUERYDB_ORDER_BY'' = Inl (ValueError m))"
    by (auto simp: safe_ident_def)
  then show L: "\<exists>m. load_config py_int environ = Inl (ValueError m)"
    by (subst load_config_cases) (auto simp: safe_ident_def split: sum.splits)
  then show "\<exists>m. startup_sql py_int environ = Inl (ValueError m)"
    by (auto simp: startup_sql_def)
next
  let ?v = "env_str environ ''QUERYDB_VIEW'' ''public.station_list_source''"
  let ?o = "env_str environ ''QUERYDB_ORDER_BY'' ''mp''"
  assume a: "list_all allowed_char ?v \<and> list_all allowed_char ?o"
  have "?v \<noteq> []" "?o \<noteq> []" by (simp_all add: env_str_nonempty)
  with a have "safe_ident ?v ''QUERYDB_VIEW'' = Inr ?v" "safe_ident ?o ''QUERYDB_ORDER_BY'' = Inr ?o"
    by (simp_all add: safe_ident_Inr)
  then obtain cfg where c: "load_config py_int environ = Inr cfg"
    by (simp add: load_config_def Let_def)
  with load_config_view [OF c]
  show "\<exists>cfg. load_config py_int environ = Inr cfg \<and> view cfg = ?v \<and> order_by cfg = ?o
           \<and> startup_sql py_int environ = Inr (build_sql cfg)"
    by (simp add: startup_sql_def)
qed

text \<open>
  C6 as stated fails: the empty string holds only characters of the class (it holds
  none), and \<open>safe_ident\<close> refuses it: the pattern asks for one character or more.
\<close>

theorem safe_ident_empty_counterexample:
  "list_all allowed_char []
   \<and> safe_ident [] ''QUERYDB_VIEW'' = Inl (ValueError ''Invalid QUERYDB_VIEW: '')"
  by (simp add: safe_ident_def)

theorem safe_ident_allow_list_witness:
  "safe_ident ''public.v;DROP'' ''QUERYDB_VIEW''
     = Inl (ValueError ''Invalid QUERYDB_VIEW: public.v;DROP'')
   \<and> safe_ident ''mp, rinex_id'' ''QUERYDB_ORDER_BY'' = Inr ''mp, rinex_id''
   \<and> isl (load_config (\<lambda>v. None) (Map.empty(''QUERYDB_VIEW'' \<mapsto> ''stations(1)'')))
   \<and> isl (startup_sql (\<lambda>v. None) (Map.empty(''QUERYDB_VIEW'' \<mapsto> ''stations(1)'')))
   \<and> load_config (\<lambda>v. None) Map.empty = Inr default_config
   \<and> startup_sql (\<lambda>v. None) Map.empty = Inr (build_sql default_config)"
proof -
  let ?bad = "Map.empty(''QUERYDB_VIEW'' \<mapsto> ''stations(1)'')"
  note B = safe_ident_allow_list [of "''public.v;DROP''" "''QUERYDB_VIEW''" ?bad "\<lambda>v. None"]
  note G = safe_ident_allow_list [of "''mp, rinex_id''" "''QUERYDB_ORDER_BY''" Map.empty "\<lambda>v. None"]
  have b1: "\<exists>c\<in>set ''public.v;DROP''. \<not> allowed_char c"
    by (simp add: allowed_char_def is_digit_def is_space_def)
  have v: "env_str ?bad ''QUERYDB_VIEW'' ''public.station_list_source'' = ''stations(1)''"
    by (simp add: env_str_def env_def str_strip_def is_space_def)
  have "\<not> allowed_char (CHR ''('')"
    by (simp add: allowed_char_def is_digit_def is_space_def)
  then have b2: "\<exists>c \<in> set (env_str ?bad ''QUERYDB_VIEW'' ''public.station_list_source'')
              \<union> set (env_str ?bad ''QUERYDB_ORDER_BY'' ''mp''). \<not> allowed_char c"
    unfolding v by auto
  have g1: "''mp, rinex_id'' \<noteq> [] \<and> list_all allowed_char ''mp, rinex_id''"
    by (simp add: allowed_char_def is_digit_def is_space_def)
  have g2: "list_all allowed_char (env_str Map.empty ''QUERYDB_VIEW'' ''public.station_list_source'')
            \<and> list_all allowed_char (env_str Map.empty ''QUERYDB_ORDER_BY'' ''mp'')"
    by (simp add: env_str_def env_def allowed_char_def is_digit_def is_space_def)
  from B b1 have 1: "safe_ident ''public.v;DROP'' ''QUERYDB_VIEW''
     = Inl (ValueError ''Invalid QUERYDB_VIEW: public.v;DROP'')" by simp
  from G g1 have 2: "safe_ident ''mp, rinex_id'' ''QUERYDB_ORDER_BY'' = Inr ''mp, rinex_id''"
    by blast
  from B b2 have 3: "isl (load_config (\<lambda>v. None) ?bad)" and 4: "isl (startup_sql (\<lambda>v. None) ?bad)"
    by auto
  from G g2 obtain cfg where c: "load_config (\<lambda>v. None) Map.empty = Inr cfg"
    and q: "startup_sql (\<lambda>v. None) Map.empty = Inr (build_sql cfg)" by blast
  from c have 5: "load_config (\<lambda>v. None) Map.empty = Inr default_config"
    by (simp add: load_config_empty)
  with c q have 6: "startup_sql (\<lambda>v. None) Map.empty = Inr (build_sql default_config)" by simp
  from 1 2 3 4 5 6 show ?thesis by blast
qed

section \<open>The coordinates of a legacy row\<close>

lemma opt_sign_split:
  "s = fst (opt_sign s) @ snd (opt_sign s) \<and> fst (opt_sign s) \<in> {[], ''+'', ''-''}"
  by (auto simp: opt_sign_def split: list.splits)

lemma digits1_split:
  "digits1 s = Some (d, r) \<Longrightarrow> s = d @ r \<and> d \<noteq> [] \<and> list_all is_digit d"
  by (auto simp: digits1_def list_all_iff split: if_splits dest: set_takeWhileD)

lemma opt_fraction_split:
  "s = fst (opt_fraction s) @ snd (opt_fraction s)
   \<and> (fst (opt_fraction s) = []
        \<or> (\<exists>d. fst (opt_fraction s) = CHR ''.'' # d \<and> d \<noteq> [] \<and> list_all is_digit d))"
  by (auto simp: opt_fraction_def split: list.splits option.splits dest: digits1_split)

lemma opt_exponent_split:
  "s = fst (opt_exponent s) @ snd (opt_exponent s)
   \<and> (fst (opt_exponent s) = []
        \<or> (\<exists>e sg' d. fst (opt_exponent s) = e # sg' @ d \<and> e \<in> {CHR ''e'', CHR ''E''}
              \<and> sg' \<in> {[], ''+'', ''-''} \<and> d \<noteq> [] \<and> list_all is_digit d))"
proof (cases s)
  case Nil
  then show ?thesis by (simp add: opt_exponent_def)
next
  case (Cons c cs)
  show ?thesis
  proof (cases "(c = CHR ''e'' \<or> c = CHR ''E'') \<and> digits1 (snd (opt_sign cs)) \<noteq> None")
    case False
    with Cons show ?thesis by (auto simp: opt_exponent_def split: option.splits)
  next
    case True
    then obtain d r where d: "digits1 (snd (opt_sign cs)) = Some (d, r)" by auto
    from digits1_split [OF d] opt_sign_split [of cs]
    have "cs = fst (opt_sign cs) @ d @ r" and "d \<noteq> []" and "list_all is_digit d"
      and "fst (opt_sign cs) \<in> {[], ''+'', ''-''}" by auto
    moreover from True Cons d have "fst (opt_exponent s) = c # fst (opt_sign cs) @ d"
      and "snd (opt_exponent s) = r" by (simp_all add: opt_exponent_def)
    ultimately show ?thesis using True Cons by auto
  qed
qed

lemma FLOAT_RE_match_token:
  assumes "FLOAT_RE_match s = Some (m, r)"
  shows "s = m @ r" and "float_token m"
proof -
  from assms obtain ip r1 where d: "digits1 (snd (opt_sign s)) = Some (ip, r1)"
    and m: "m = fst (opt_sign s) @ ip @ fst (opt_fraction r1) @ fst (opt_exponent (snd (opt_fraction r1)))"
    and r: "r = snd (opt_exponent (snd (opt_fraction r1)))"
    by (auto simp: FLOAT_RE_match_def Let_def split: option.splits)
  note 1 = opt_sign_split [of s] and 2 = digits1_split [OF d]
    and 3 = opt_fraction_split [of r1] and 4 = opt_exponent_split [of "snd (opt_fraction r1)"]
  have "s = fst (opt_sign s) @ ip @ r1" using 1 2 by simp
  also have "r1 = fst (opt_fraction r1) @ snd (opt_fraction r1)" using 3 by simp
  also have "snd (opt_fraction r1) = fst (opt_exponent (snd (opt_fraction r1))) @ r"
    using 4 r by simp
  finally show "s = m @ r" using m by simp
  show "float_token m"
    unfolding float_token_def
    using m 1 2 3 4 by blast
qed

lemma is_digit_not_space: "is_digit c \<Longrightarrow> \<not> is_space c"
  by (auto simp: is_digit_def is_space_def Let_def)

lemma float_token_clean:
  assumes "float_token m"
  shows "clean_token m"
proof -
  from assms obtain sg ip fr ex where m: "m = sg @ ip @ fr @ ex"
    and sg: "sg \<in> {[], ''+'', ''-''}" and ip: "ip \<noteq> []" "list_all is_digit ip"
    and fr: "fr = [] \<or> (\<exists>d. fr = CHR ''.'' # d \<and> d \<noteq> [] \<and> list_all is_digit d)"
    and ex: "ex = [] \<or> (\<exists>e sg' d. ex = e # sg' @ d \<and> e \<in> {CHR ''e'', CHR ''E''}
                            \<and> sg' \<in> {[], ''+'', ''-''} \<and> d \<noteq> [] \<and> list_all is_digit d)"
    unfolding float_token_def by blast
  have dg: "list_all (\<lambda>c. \<not> is_space c) d" if "list_all is_digit d" for d
    using that by (simp add: list_all_iff is_digit_not_space)
  have 1: "list_all (\<lambda>c. \<not> is_space c) sg" using sg by (auto simp: is_space_def)
  have 2: "list_all (\<lambda>c. \<not> is_space c) ip" using ip(2) by (rule dg)
  have 3: "list_all (\<lambda>c. \<not> is_space c) fr"
  proof (cases "fr = []")
    case True
    then show ?thesis by simp
  next
    case False
    with fr obtain d where d: "fr = CHR ''.'' # d" "list_all is_digit d" by blast
    have "\<not> is_space (CHR ''.'')" by (simp add: is_space_def)
    with dg [OF d(2)] show ?thesis unfolding d(1) by simp
  qed
  have 4: "list_all (\<lambda>c. \<not> is_space c) ex"
  proof (cases "ex = []")
    case True
    then show ?thesis by simp
  next
    case False
    with ex obtain e sg' d where e: "ex = e # sg' @ d" "e \<in> {CHR ''e'', CHR ''E''}"
      "sg' \<in> {[], ''+'', ''-''}" "list_all is_digit d" by blast
    have "list_all (\<lambda>c. \<not> is_space c) sg'" using e(3) by (auto simp: is_space_def)
    moreover have "\<not> is_space e" using e(2) by (auto simp: is_space_def)
    ultimately show ?thesis using dg [OF e(4)] unfolding e(1) by simp
  qed
  from 1 2 3 4 ip(1) show ?thesis by (simp add: clean_token_def m)
qed

lemma findall_tokens:
  "list_all (\<lambda>m. float_token m \<and> sublist m s) (FLOAT_RE_findall s)"
proof (induction s rule: FLOAT_RE_findall.induct)
  case 1
  then show ?case by simp
next
  case (2 c cs)
  show ?case
  proof (cases "FLOAT_RE_match (c # cs)")
    case None
    with 2(1) have "list_all (\<lambda>m. float_token m \<and> sublist m cs) (FLOAT_RE_findall cs)" by simp
    then have "list_all (\<lambda>m. float_token m \<and> sublist m (c # cs)) (FLOAT_RE_findall cs)"
      by (auto simp: list_all_iff intro: sublist_Cons_right [THEN iffD2])
    with None show ?thesis by simp
  next
    case (Some p)
    obtain m rest where p: "p = (m, rest)" by (cases p)
    from Some p have M: "FLOAT_RE_match (c # cs) = Some (m, rest)" by simp
    from FLOAT_RE_match_token [OF M] have s: "c # cs = m @ rest" and t: "float_token m" by auto
    from 2(2) [OF M refl]
    have R: "list_all (\<lambda>m. float_token m \<and> sublist m rest) (FLOAT_RE_findall rest)" .
    have sub: "sublist rest (c # cs)" unfolding s by (rule sublist_append_leftI)
    have subm: "sublist m (c # cs)" unfolding s by (rule sublist_append_rightI)
    from R have "list_all (\<lambda>x. float_token x \<and> sublist x (c # cs)) (FLOAT_RE_findall rest)"
      by (auto simp: list_all_iff intro: sublist_order.order_trans [OF _ sub])
    moreover have "FLOAT_RE_findall (c # cs) = m # FLOAT_RE_findall rest" using M by simp
    ultimately show ?thesis using t subm by simp
  qed
qed

lemma findall_None: "FLOAT_RE_findall ''None'' = []"
  by (simp add: FLOAT_RE_match_def opt_sign_def digits1_def is_digit_def)

lemma parse_ecef_xyz_text:
  assumes "\<not> (is_seq v \<and> 3 \<le> length (seq_items v))"
  shows "parse_ecef_xyz v =
           (if length (FLOAT_RE_findall (py_str v)) < 3 then None
            else Some (FLOAT_RE_findall (py_str v) ! 0, FLOAT_RE_findall (py_str v) ! 1,
                       FLOAT_RE_findall (py_str v) ! 2))"
  using assms
  by (cases v) (auto simp: parse_ecef_xyz_def Let_def findall_None simp del: FLOAT_RE_findall.simps)

lemma take3: "3 \<le> length xs \<Longrightarrow> take 3 xs = [xs ! 0, xs ! 1, xs ! 2]"
  by (cases xs; cases "tl xs"; cases "tl (tl xs)") auto

text \<open>
  C7, as amended. A row that takes the legacy path gives a line of eleven fields. When
  its ECEF cell is not a list or tuple of at least three items, X, Y and Z are the first
  three matches of the number pattern in the text of the cell, found from left to right
  whatever stands between them, or three empty strings when there are fewer than three
  matches. When the cell is a list or tuple of at least three items, X, Y and Z are the
  texts of its first three items. Every match is a contiguous part of the text and has
  the shape of the pattern.
\<close>

theorem legacy_ecef_parsing:
  assumes "6 \<le> length row" and "\<not> (11 \<le> length row \<and> is_station_list_source_view cfg)"
  shows "\<exists>fs. row_fields cfg row = Some fs \<and> length fs = 11
           \<and> take 3 (drop 2 fs) =
               (if is_seq (row ! 2) \<and> 3 \<le> length (seq_items (row ! 2))
                then take 3 (seq_items (row ! 2))
                else if 3 \<le> length (FLOAT_RE_findall (py_str (row ! 2)))
                then take 3 (FLOAT_RE_findall (py_str (row ! 2)))
                else [[], [], []])
           \<and> list_all (\<lambda>m. float_token m \<and> sublist m (py_str (row ! 2)))
                 (FLOAT_RE_findall (py_str (row ! 2)))"
proof (cases "is_seq (row ! 2) \<and> 3 \<le> length (seq_items (row ! 2))")
  case True
  then have "row ! 2 \<noteq> PNone" by (cases "row ! 2") auto
  with True have "parse_ecef_xyz (row ! 2)
      = Some (seq_items (row ! 2) ! 0, seq_items (row ! 2) ! 1, seq_items (row ! 2) ! 2)"
    by (simp add: parse_ecef_xyz_def)
  with True assms show ?thesis by (auto simp: row_fields_def Let_def take3 findall_tokens)
next
  case False
  from parse_ecef_xyz_text [OF False] False assms show ?thesis
    by (auto simp: row_fields_def Let_def take3 findall_tokens)
qed

theorem legacy_ecef_parsing_witness:
  "row_fields (default_config\<lparr>mode := ''etat_antennes4''\<rparr>)
     [PScalar ''ABC'', PNone, PScalar ''1.0, 2.5, -3.25e1'', PNone, PNone, PNone]
     = Some [''ABC'', ''ABC'', ''1.0'', ''2.5'', ''-3.25e1'', ''UNKNOWN'', ''UNKNOWN'',
             ''NONE|NONE'', ''0.0'', ''0.0'', ''0.0'']
   \<and> FLOAT_RE_findall ''1.0, 2.5, -3.25e1'' = [''1.0'', ''2.5'', ''-3.25e1'']
   \<and> take 3 (drop 2 [''ABC'', ''ABC'', ''1.0'', ''2.5'', ''-3.25e1'', ''UNKNOWN'', ''UNKNOWN'',
             ''NONE|NONE'', ''0.0'', ''0.0'', ''0.0'']) = [''1.0'', ''2.5'', ''-3.25e1'']"
proof -
  let ?cfg = "default_config\<lparr>mode := ''etat_antennes4''\<rparr>"
  let ?row = "[PScalar ''ABC'', PNone, PScalar ''1.0, 2.5, -3.25e1'', PNone, PNone, PNone]"
  have f: "FLOAT_RE_findall ''1.0, 2.5, -3.25e1'' = [''1.0'', ''2.5'', ''-3.25e1'']"
    by code_simp
  have r: "row_fields ?cfg ?row
     = Some [''ABC'', ''ABC'', ''1.0'', ''2.5'', ''-3.25e1'', ''UNKNOWN'', ''UNKNOWN'',
             ''NONE|NONE'', ''0.0'', ''0.0'', ''0.0'']"
    by code_simp
  have h: "6 \<le> length ?row" "\<not> (11 \<le> length ?row \<and> is_station_list_source_view ?cfg)"
    by simp_all
  from legacy_ecef_parsing [OF h] r f show ?thesis by simp
qed

text \<open>
  C7 as stated fails for a list: the text \<open>[nan, 2.0, 3.0]\<close> of the list of floats
  holds two numeric tokens only, yet X, Y and Z are not empty, and X is \<open>nan\<close>, which is
  no match of the pattern.
\<close>

theorem legacy_ecef_list_counterexample:
  "FLOAT_RE_findall ''[nan, 2.0, 3.0]'' = [''2.0'', ''3.0'']
   \<and> row_fields (default_config\<lparr>mode := ''etat_antennes4''\<rparr>)
        [PScalar ''ABC'', PNone, PSeq [''nan'', ''2.0'', ''3.0''] ''[nan, 2.0, 3.0]'', PNone,
         PNone, PNone]
       = Some [''ABC'', ''ABC'', ''nan'', ''2.0'', ''3.0'', ''UNKNOWN'', ''UNKNOWN'',
               ''NONE|NONE'', ''0.0'', ''0.0'', ''0.0'']"
  by code_simp

section \<open>The fields of a written line\<close>

lemma re_sub_spaces_no_space:
  "list_all (\<lambda>c. \<not> is_space c) repl \<Longrightarrow> list_all (\<lambda>c. \<not> is_space c) (re_sub_spaces repl t)"
  by (induction repl t rule: re_sub_spaces.induct) simp_all

lemma re_sub_spaces_nonempty: "t \<noteq> [] \<Longrightarrow> repl \<noteq> [] \<Longrightarrow> re_sub_spaces repl t \<noteq> []"
  by (cases t) simp_all

lemma normalize_token_present: "present v \<Longrightarrow> clean_token (normalize_token v d)"
proof -
  assume p: "present v"
  have "list_all (\<lambda>c. \<not> is_space c) ''|''" by (simp add: is_space_def)
  then have "list_all (\<lambda>c. \<not> is_space c) (re_sub_spaces ''|'' (str_strip (py_str v)))"
    by (rule re_sub_spaces_no_space)
  moreover have "re_sub_spaces ''|'' (str_strip (py_str v)) \<noteq> []"
    using p by (simp add: present_def re_sub_spaces_nonempty)
  ultimately show ?thesis
    using p by (simp add: present_def normalize_token_def clean_token_def SPACE_ENC_def)
qed

lemma normalize_token_clean: "clean_token d \<Longrightarrow> clean_token (normalize_token v d)"
proof (cases "present v")
  case True
  then show ?thesis by (rule normalize_token_present)
next
  case False
  assume "clean_token d"
  with False show ?thesis by (auto simp: present_def normalize_token_def Let_def)
qed

lemma clean_literals: "clean_token ''UNKNOWN''" "clean_token ''NONE|NONE''"
  by (simp_all add: clean_token_def is_space_def)

lemma findall_clean: "list_all clean_token (FLOAT_RE_findall s)"
  using findall_tokens [of s] by (auto simp: list_all_iff float_token_clean)

lemma str_strip_empty_iff: "str_strip t = [] \<longleftrightarrow> list_all is_space t"
proof
  assume e: "str_strip t = []"
  have "t = takeWhile is_space t @ str_strip t
              @ rev (takeWhile is_space (rev (dropWhile is_space t)))"
    by (rule str_strip_decomp)
  with e have t: "t = takeWhile is_space t @ rev (takeWhile is_space (rev (dropWhile is_space t)))"
    by simp
  have "list_all is_space (takeWhile is_space t
          @ rev (takeWhile is_space (rev (dropWhile is_space t))))"
    by (auto simp: list_all_iff dest: set_takeWhileD)
  with t show "list_all is_space t" by metis
next
  assume "list_all is_space t"
  then have "dropWhile is_space t = []"
    by (auto simp: list_all_iff dest: set_dropWhileD)
  then show "str_strip t = []"
    unfolding str_strip_def by (metis dropWhile.simps(1) rev.simps(1))
qed

lemma format_float_pinned:
  "format_float v = (if v = PNone then [] else str_strip (py_str v))
   \<and> (format_float v = [] \<longleftrightarrow> v = PNone \<or> list_all is_space (py_str v))
   \<and> (format_float v \<noteq> [] \<longrightarrow>
        \<not> is_space (hd (format_float v)) \<and> \<not> is_space (last (format_float v)))"
  using str_strip_ends [of "py_str v"]
  by (auto simp: format_float_def str_strip_empty_iff)

text \<open>
  C1, as amended. A written line has eleven fields. The receiver type, the receiver
  version and the antenna type are always non-empty and free of whitespace. So are the
  mountpoint and the RINEX id when the mountpoint cell is present (not \<open>None\<close>, blank or
  \<open>null\<close>), the RINEX id also when its own cell is present, and the three antenna
  offsets when the configured defaults are. X, Y and Z are as follows. On the modern path
  each is the trimmed text of its cell: empty exactly when the cell is \<open>None\<close> or holds
  only whitespace, and otherwise non-empty with no whitespace at either end. On the
  legacy path, with an ECEF cell that is not a list or tuple of at least three items: all
  three are empty when the cell is \<open>None\<close> and when its text holds fewer than three
  numeric tokens; otherwise they are the first three numeric tokens, each non-empty and
  free of whitespace. On the legacy path, with a list or tuple of at least three items,
  they are the texts of its first three items.
\<close>

theorem written_fields_clean:
  assumes "row_fields cfg row = Some fs"
  shows "length fs = 11
       \<and> clean_token (fs ! 5) \<and> clean_token (fs ! 6) \<and> clean_token (fs ! 7)
       \<and> (present (row ! 0) \<longrightarrow> clean_token (fs ! 0) \<and> clean_token (fs ! 1))
       \<and> (present (row ! 1) \<longrightarrow> clean_token (fs ! 1))
       \<and> (clean_token (ant_h_default cfg) \<and> clean_token (ant_e_default cfg)
            \<and> clean_token (ant_n_default cfg) \<longrightarrow>
            clean_token (fs ! 8) \<and> clean_token (fs ! 9) \<and> clean_token (fs ! 10))
       \<and> (11 \<le> length row \<and> is_station_list_source_view cfg \<longrightarrow>
            (\<forall>i\<in>{2, 3, 4}.
               fs ! i = (if row ! i = PNone then [] else str_strip (py_str (row ! i)))
               \<and> (fs ! i = [] \<longleftrightarrow> row ! i = PNone \<or> list_all is_space (py_str (row ! i)))
               \<and> (fs ! i \<noteq> [] \<longrightarrow> \<not> is_space (hd (fs ! i)) \<and> \<not> is_space (last (fs ! i)))))
       \<and> (\<not> (11 \<le> length row \<and> is_station_list_source_view cfg)
            \<and> \<not> (is_seq (row ! 2) \<and> 3 \<le> length (seq_items (row ! 2))) \<longrightarrow>
            (row ! 2 = PNone \<longrightarrow> fs ! 2 = [] \<and> fs ! 3 = [] \<and> fs ! 4 = [])
            \<and> (length (FLOAT_RE_findall (py_str (row ! 2))) < 3 \<longrightarrow>
                 fs ! 2 = [] \<and> fs ! 3 = [] \<and> fs ! 4 = [])
            \<and> (3 \<le> length (FLOAT_RE_findall (py_str (row ! 2))) \<longrightarrow>
                 fs ! 2 = FLOAT_RE_findall (py_str (row ! 2)) ! 0
                 \<and> fs ! 3 = FLOAT_RE_findall (py_str (row ! 2)) ! 1
                 \<and> fs ! 4 = FLOAT_RE_findall (py_str (row ! 2)) ! 2
                 \<and> clean_token (fs ! 2) \<and> clean_token (fs ! 3) \<and> clean_token (fs ! 4)))
       \<and> (\<not> (11 \<le> length row \<and> is_station_list_source_view cfg)
            \<and> is_seq (row ! 2) \<and> 3 \<le> length (seq_items (row ! 2)) \<longrightarrow>
            fs ! 2 = seq_items (row ! 2) ! 0 \<and> fs ! 3 = seq_items (row ! 2) ! 1
            \<and> fs ! 4 = seq_items (row ! 2) ! 2)"
proof (cases "11 \<le> length row \<and> is_station_list_source_view cfg")
  case True
  with assms
  have fs: "fs = [normalize_token (row ! 0) [],
                  normalize_token (row ! 1) (normalize_token (row ! 0) []),
                  format_float (row ! 2), format_float (row ! 3), format_float (row ! 4),
                  normalize_token (row ! 5) ''UNKNOWN'',
                  normalize_token (row ! 6) ''UNKNOWN'',
                  normalize_token (row ! 7) ''NONE|NONE'',
                  normalize_token (row ! 8) (ant_h_default cfg),
                  normalize_token (row ! 9) (ant_e_default cfg),
                  normalize_token (row ! 10) (ant_n_default cfg)]"
    by (auto simp: row_fields_def Let_def)
  have xyz: "\<forall>i\<in>{2, 3, 4}.
               fs ! i = (if row ! i = PNone then [] else str_strip (py_str (row ! i)))
               \<and> (fs ! i = [] \<longleftrightarrow> row ! i = PNone \<or> list_all is_space (py_str (row ! i)))
               \<and> (fs ! i \<noteq> [] \<longrightarrow> \<not> is_space (hd (fs ! i)) \<and> \<not> is_space (last (fs ! i)))"
  proof
    fix i :: nat
    assume "i \<in> {2, 3, 4}"
    then have sel: "fs ! i = format_float (row ! i)" unfolding fs by auto
    show "fs ! i = (if row ! i = PNone then [] else str_strip (py_str (row ! i)))
               \<and> (fs ! i = [] \<longleftrightarrow> row ! i = PNone \<or> list_all is_space (py_str (row ! i)))
               \<and> (fs ! i \<noteq> [] \<longrightarrow> \<not> is_space (hd (fs ! i)) \<and> \<not> is_space (last (fs ! i)))"
      unfolding sel by (rule format_float_pinned)
  qed
  have rest: "length fs = 11
       \<and> clean_token (fs ! 5) \<and> clean_token (fs ! 6) \<and> clean_token (fs ! 7)
       \<and> (present (row ! 0) \<longrightarrow> clean_token (fs ! 0) \<and> clean_token (fs ! 1))
       \<and> (present (row ! 1) \<longrightarrow> clean_token (fs ! 1))
       \<and> (clean_token (ant_h_default cfg) \<and> clean_token (ant_e_default cfg)
            \<and> clean_token (ant_n_default cfg) \<longrightarrow>
            clean_token (fs ! 8) \<and> clean_token (fs ! 9) \<and> clean_token (fs ! 10))"
    unfolding fs
    by (simp add: normalize_token_present normalize_token_clean clean_literals)
  from True xyz rest show ?thesis by blast
next
  case False
  with assms have len: "6 \<le> length row" by (auto simp: row_fields_def split: if_splits)
  let ?n = "FLOAT_RE_findall (py_str (row ! 2))"
  let ?xyz = "case parse_ecef_xyz (row ! 2) of None \<Rightarrow> ([], [], []) | Some t \<Rightarrow> t"
  from assms False len
  have fs: "fs = [normalize_token (row ! 0) [],
                  normalize_token (row ! 1) (normalize_token (row ! 0) []),
                  fst ?xyz, fst (snd ?xyz), snd (snd ?xyz),
                  normalize_token (row ! 3) ''UNKNOWN'',
                  normalize_token (row ! 4) ''UNKNOWN'',
                  normalize_token (row ! 5) ''NONE|NONE'',
                  ant_h_default cfg, ant_e_default cfg, ant_n_default cfg]"
    by (auto simp: row_fields_def Let_def)
  have rest: "length fs = 11
       \<and> clean_token (fs ! 5) \<and> clean_token (fs ! 6) \<and> clean_token (fs ! 7)
       \<and> (present (row ! 0) \<longrightarrow> clean_token (fs ! 0) \<and> clean_token (fs ! 1))
       \<and> (present (row ! 1) \<longrightarrow> clean_token (fs ! 1))
       \<and> (clean_token (ant_h_default cfg) \<and> clean_token (ant_e_default cfg)
            \<and> clean_token (ant_n_default cfg) \<longrightarrow>
            clean_token (fs ! 8) \<and> clean_token (fs ! 9) \<and> clean_token (fs ! 10))"
    unfolding fs
    by (simp add: normalize_token_present normalize_token_clean clean_literals)
  have sel: "fs ! 2 = fst ?xyz" "fs ! 3 = fst (snd ?xyz)" "fs ! 4 = snd (snd ?xyz)"
    unfolding fs by simp_all
  have textual: "(row ! 2 = PNone \<longrightarrow> fs ! 2 = [] \<and> fs ! 3 = [] \<and> fs ! 4 = [])
            \<and> (length ?n < 3 \<longrightarrow> fs ! 2 = [] \<and> fs ! 3 = [] \<and> fs ! 4 = [])
            \<and> (3 \<le> length ?n \<longrightarrow>
                 fs ! 2 = ?n ! 0 \<and> fs ! 3 = ?n ! 1 \<and> fs ! 4 = ?n ! 2
                 \<and> clean_token (fs ! 2) \<and> clean_token (fs ! 3) \<and> clean_token (fs ! 4))"
    if ns: "\<not> (is_seq (row ! 2) \<and> 3 \<le> length (seq_items (row ! 2)))"
  proof -
    note p = parse_ecef_xyz_text [OF ns]
    have none: "fs ! 2 = [] \<and> fs ! 3 = [] \<and> fs ! 4 = []" if "row ! 2 = PNone"
      unfolding sel using that by (simp add: parse_ecef_xyz_def)
    have few: "fs ! 2 = [] \<and> fs ! 3 = [] \<and> fs ! 4 = []" if "length ?n < 3"
      unfolding sel using that p by simp
    have three: "fs ! 2 = ?n ! 0 \<and> fs ! 3 = ?n ! 1 \<and> fs ! 4 = ?n ! 2
                 \<and> clean_token (fs ! 2) \<and> clean_token (fs ! 3) \<and> clean_token (fs ! 4)"
      if t: "3 \<le> length ?n"
    proof -
      from t have eq: "fs ! 2 = ?n ! 0" "fs ! 3 = ?n ! 1" "fs ! 4 = ?n ! 2"
        unfolding sel using p by simp_all
      from t have "?n ! 0 \<in> set ?n" "?n ! 1 \<in> set ?n" "?n ! 2 \<in> set ?n"
        by (auto intro: nth_mem)
      with findall_clean [of "py_str (row ! 2)"]
      have "clean_token (?n ! 0)" "clean_token (?n ! 1)" "clean_token (?n ! 2)"
        by (simp_all add: list_all_iff)
      with eq show ?thesis by simp
    qed
    from none few three show ?thesis by blast
  qed
  have seq: "fs ! 2 = seq_items (row ! 2) ! 0 \<and> fs ! 3 = seq_items (row ! 2) ! 1
            \<and> fs ! 4 = seq_items (row ! 2) ! 2"
    if s: "is_seq (row ! 2) \<and> 3 \<le> length (seq_items (row ! 2))"
  proof -
    from s have "row ! 2 \<noteq> PNone" by (cases "row ! 2") auto
    with s show ?thesis unfolding sel by (simp add: parse_ecef_xyz_def)
  qed
  from False rest textual seq show ?thesis by blast
qed

theorem written_fields_clean_witness:
  "row_fields default_config station_row
     = Some [''ABC'', ''ABCD00FRA'', ''1.1'', ''2.2'', ''3.3'', ''SEPT|POLARX5'', ''5.4.0'',
             ''TRM59800.00|NONE'', ''0.0'', ''0.0'', ''0.0'']
   \<and> list_all clean_token
        [''ABC'', ''ABCD00FRA'', ''1.1'', ''2.2'', ''3.3'', ''SEPT|POLARX5'', ''5.4.0'',
         ''TRM59800.00|NONE'', ''0.0'', ''0.0'', ''0.0'']
   \<and> FLOAT_RE_findall (py_str (station_row ! 2)) = [''1.1'', ''2.2'', ''3.3'']
   \<and> row_fields default_config [PScalar ''ABC'', PNone, PNone, PNone, PNone, PNone]
     = Some [''ABC'', ''ABC'', [], [], [], ''UNKNOWN'', ''UNKNOWN'', ''NONE|NONE'',
             ''0.0'', ''0.0'', ''0.0'']
   \<and> row_fields default_config
       [PScalar ''ABC'', PNone, PScalar '' 4.5 '', PNone, PScalar ''  '', PNone, PNone, PNone,
        PNone, PNone, PNone]
     = Some [''ABC'', ''ABC'', ''4.5'', [], [], ''UNKNOWN'', ''UNKNOWN'', ''NONE|NONE'',
             ''0.0'', ''0.0'', ''0.0'']
   \<and> row_fields default_config
       [PScalar ''ABC'', PNone, PSeq [''1.0'', ''2.0'', ''3.0''] ''[1.0, 2.0, 3.0]'', PNone,
        PNone, PNone]
     = Some [''ABC'', ''ABC'', ''1.0'', ''2.0'', ''3.0'', ''UNKNOWN'', ''UNKNOWN'',
             ''NONE|NONE'', ''0.0'', ''0.0'', ''0.0'']"
proof -
  let ?fs1 = "[''ABC'', ''ABCD00FRA'', ''1.1'', ''2.2'', ''3.3'', ''SEPT|POLARX5'', ''5.4.0'',
               ''TRM59800.00|NONE'', ''0.0'', ''0.0'', ''0.0'']"
  let ?row2 = "[PScalar ''ABC'', PNone, PNone, PNone, PNone, PNone]"
  let ?row3 = "[PScalar ''ABC'', PNone, PScalar '' 4.5 '', PNone, PScalar ''  '', PNone, PNone,
                PNone, PNone, PNone, PNone]"
  let ?row4 = "[PScalar ''ABC'', PNone, PSeq [''1.0'', ''2.0'', ''3.0''] ''[1.0, 2.0, 3.0]'',
                PNone, PNone, PNone]"
  have m: "is_station_list_source_view default_config" by code_simp
  have d: "clean_token (ant_h_default default_config) \<and> clean_token (ant_e_default default_config)
            \<and> clean_token (ant_n_default default_config)"
    by (simp add: default_config_def clean_token_def is_space_def)
  \<comment> \<open>A legacy row with three numeric tokens and every cell present.\<close>
  have r1: "row_fields default_config station_row = Some ?fs1" by code_simp
  have p0: "present (station_row ! 0)" and p1: "present (station_row ! 1)" by code_simp+
  have n1: "FLOAT_RE_findall (py_str (station_row ! 2)) = [''1.1'', ''2.2'', ''3.3'']"
    by code_simp
  have l1: "\<not> (11 \<le> length station_row \<and> is_station_list_source_view default_config)
            \<and> \<not> (is_seq (station_row ! 2) \<and> 3 \<le> length (seq_items (station_row ! 2)))"
    by (simp add: station_row_def)
  have t1: "3 \<le> length (FLOAT_RE_findall (py_str (station_row ! 2)))" unfolding n1 by simp
  from written_fields_clean [OF r1] p0 p1 d l1 t1
  have "clean_token (?fs1 ! 0) \<and> clean_token (?fs1 ! 1) \<and> clean_token (?fs1 ! 2)
        \<and> clean_token (?fs1 ! 3) \<and> clean_token (?fs1 ! 4) \<and> clean_token (?fs1 ! 5)
        \<and> clean_token (?fs1 ! 6) \<and> clean_token (?fs1 ! 7) \<and> clean_token (?fs1 ! 8)
        \<and> clean_token (?fs1 ! 9) \<and> clean_token (?fs1 ! 10)"
    by blast
  then have c1: "list_all clean_token ?fs1" by simp
  \<comment> \<open>A legacy row whose ECEF cell is \<open>None\<close>.\<close>
  obtain fs2 where r2: "row_fields default_config ?row2 = Some fs2"
    by (simp add: row_fields_def Let_def)
  have l2: "\<not> (11 \<le> length ?row2 \<and> is_station_list_source_view default_config)
            \<and> \<not> (is_seq (?row2 ! 2) \<and> 3 \<le> length (seq_items (?row2 ! 2)))"
    and e2: "?row2 ! 2 = PNone" by simp_all
  from written_fields_clean [OF r2] l2 e2
  have x2: "fs2 ! 2 = [] \<and> fs2 ! 3 = [] \<and> fs2 ! 4 = []" by blast
  have "row_fields default_config ?row2
     = Some [''ABC'', ''ABC'', [], [], [], ''UNKNOWN'', ''UNKNOWN'', ''NONE|NONE'',
             ''0.0'', ''0.0'', ''0.0'']"
    by code_simp
  with r2 x2 have c2: "row_fields default_config ?row2
     = Some [''ABC'', ''ABC'', fs2 ! 2, fs2 ! 3, fs2 ! 4, ''UNKNOWN'', ''UNKNOWN'', ''NONE|NONE'',
             ''0.0'', ''0.0'', ''0.0'']"
    by simp
  \<comment> \<open>A modern row: one coordinate with spaces around it, one \<open>None\<close>, one blank.\<close>
  obtain fs3 where r3: "row_fields default_config ?row3 = Some fs3"
    using m by (simp add: row_fields_def Let_def)
  have l3: "11 \<le> length ?row3 \<and> is_station_list_source_view default_config"
    using m by simp
  from written_fields_clean [OF r3] l3
  have "\<forall>i\<in>{2, 3, 4}. fs3 ! i = (if ?row3 ! i = PNone then [] else str_strip (py_str (?row3 ! i)))"
    by blast
  then have x3: "fs3 ! 2 = ''4.5'' \<and> fs3 ! 3 = [] \<and> fs3 ! 4 = []"
    by (simp add: str_strip_def is_space_def)
  have "row_fields default_config ?row3
     = Some [''ABC'', ''ABC'', ''4.5'', [], [], ''UNKNOWN'', ''UNKNOWN'', ''NONE|NONE'',
             ''0.0'', ''0.0'', ''0.0'']"
    by code_simp
  with r3 x3 have c3: "row_fields default_config ?row3
     = Some [''ABC'', ''ABC'', fs3 ! 2, fs3 ! 3, fs3 ! 4, ''UNKNOWN'', ''UNKNOWN'', ''NONE|NONE'',
             ''0.0'', ''0.0'', ''0.0'']"
    by simp
  \<comment> \<open>A legacy row whose ECEF cell is a list of three items.\<close>
  obtain fs4 where r4: "row_fields default_config ?row4 = Some fs4"
    by (simp add: row_fields_def Let_def)
  have l4: "\<not> (11 \<le> length ?row4 \<and> is_station_list_source_view default_config)
            \<and> is_seq (?row4 ! 2) \<and> 3 \<le> length (seq_items (?row4 ! 2))"
    by simp
  from written_fields_clean [OF r4] l4
  have x4: "fs4 ! 2 = seq_items (?row4 ! 2) ! 0 \<and> fs4 ! 3 = seq_items (?row4 ! 2) ! 1
            \<and> fs4 ! 4 = seq_items (?row4 ! 2) ! 2"
    by blast
  have "row_fields default_config ?row4
     = Some [''ABC'', ''ABC'', ''1.0'', ''2.0'', ''3.0'', ''UNKNOWN'', ''UNKNOWN'',
             ''NONE|NONE'', ''0.0'', ''0.0'', ''0.0'']"
    by code_simp
  with r4 x4 have c4: "row_fields default_config ?row4
     = Some [''ABC'', ''ABC'', fs4 ! 2, fs4 ! 3, fs4 ! 4, ''UNKNOWN'', ''UNKNOWN'',
             ''NONE|NONE'', ''0.0'', ''0.0'', ''0.0'']"
    by simp
  from r1 c1 n1 c2 x2 c3 x3 c4 x4 show ?thesis by simp
qed

text \<open>
  C1 as stated fails: a row whose coordinates are \<open>None\<close> is written with three empty
  fields, under the legacy schema and under the modern one.
\<close>

theorem written_fields_empty_counterexample:
  "row_fields (default_config\<lparr>mode := ''etat_antennes4''\<rparr>)
     [PScalar ''ABC'', PNone, PNone, PScalar ''RX 1'', PNone, PNone]
     = Some [''ABC'', ''ABC'', [], [], [], ''RX|1'', ''UNKNOWN'', ''NONE|NONE'',
             ''0.0'', ''0.0'', ''0.0'']
   \<and> row_fields default_config
       [PScalar ''ABC'', PNone, PNone, PNone, PNone, PScalar ''RX 1'', PNone, PNone, PNone,
        PNone, PNone]
     = Some [''ABC'', ''ABC'', [], [], [], ''RX|1'', ''UNKNOWN'', ''NONE|NONE'',
             ''0.0'', ''0.0'', ''0.0'']
   \<and> \<not> clean_token []"
  by code_simp

end
